theory Spec2Isabelle
  imports Complex_Main "HOL-Library.Multiset"
begin

section \<open>Data model\<close>

text \<open>
  The plugin of \<^verbatim>\<open>src/main.ts\<close> builds a canvas (a node-link diagram) for a note and its
  link neighbourhood, and later grows it. The model keeps the source's structure:
  one HOL function per method, the state a method mutates passed in and returned, the
  host's services (the link cache, the vault, the clock, the random ids) as arguments.

  JavaScript numbers that hold coordinates are modelled as exact rationals: the layout
  only adds, subtracts, multiplies and halves them. The code computes with IEEE doubles,
  which give the same results as long as every value computed is itself a double. The
  search for a free position in \<^verbatim>\<open>expandCanvas\<close>, whose outcome depends on comparisons of
  computed values, is therefore modelled a second time with every operation rounded
  (\<open>newNodePositionR\<close>), and the two models are proved equal on the canvases
  \<open>exactCanvas\<close> (lemma \<open>rounded_position_exact\<close>). Levels, depths and indices are naturals.
\<close>

record TFile =
  path :: string
  basename :: string
  extension :: string

text \<open>What \<^verbatim>\<open>vault.getAbstractFileByPath\<close> can return besides \<^verbatim>\<open>null\<close>.\<close>

datatype TAbstractFile = IsFile TFile | IsFolder string

text \<open>
  The host: \<^verbatim>\<open>metadataCache.resolvedLinks\<close> is an object from source path to an object
  from target path to a link count; both are given as the lists of their entries, in the
  order \<^verbatim>\<open>Object.entries\<close> yields them. \<^verbatim>\<open>localeCompare\<close> is the host's string collation.
\<close>

record App =
  resolvedLinks :: "(string \<times> (string \<times> nat) list) list"
  vault :: "(string \<times> TAbstractFile) list"
  localeCompare :: "string \<Rightarrow> string \<Rightarrow> int"

record CanvasAutoGenSettings =
  autoGenerateOnOpen :: bool
  autoOpenCanvas :: bool
  canvasWidth :: rat
  canvasHeight :: rat
  linkDepth :: nat
  autoExpandCanvas :: bool

definition DEFAULT_SETTINGS :: CanvasAutoGenSettings where
  "DEFAULT_SETTINGS =
     \<lparr>autoGenerateOnOpen = False, autoOpenCanvas = True, canvasWidth = 800,
      canvasHeight = 600, linkDepth = 1, autoExpandCanvas = True\<rparr>"

text \<open>An entry of the exploration's node list, \<^verbatim>\<open>{file, level, isBacklink}\<close> (the field
  \<^verbatim>\<open>file\<close> is \<open>tfile\<close> here).\<close>

record GraphNode =
  tfile :: TFile
  level :: nat
  isBacklink :: bool

text \<open>The persisted canvas: nodes, edges and the two timestamps.\<close>

record CanvasNode =
  node_id :: string
  node_type :: string
  node_file :: string
  node_x :: rat
  node_y :: rat
  node_width :: rat
  node_height :: rat

record CanvasEdge =
  edge_id :: string
  fromNode :: string
  fromSide :: string
  toNode :: string
  toSide :: string

record CanvasMeta =
  created :: string
  modified :: string

record CanvasData =
  nodes :: "CanvasNode list"
  edges :: "CanvasEdge list"
  meta :: CanvasMeta

datatype Direction = Left | Right

section \<open>The link index: \<^verbatim>\<open>getForwardLinks\<close> and \<^verbatim>\<open>getBacklinks\<close>\<close>

definition getAbstractFileByPath :: "App \<Rightarrow> string \<Rightarrow> TAbstractFile option" where
  "getAbstractFileByPath app p = map_of (vault app) p"

text \<open>
  The test \<^verbatim>\<open>f && f instanceof TFile && f.extension === 'md'\<close> on a looked-up path: the
  markdown file, if the path names one.
\<close>

definition markdownFile :: "App \<Rightarrow> string \<Rightarrow> TFile list" where
  "markdownFile app p =
     (case getAbstractFileByPath app p of
        Some (IsFile f) \<Rightarrow> (if extension f = ''md'' then [f] else [])
      | _ \<Rightarrow> [])"

definition getForwardLinks :: "App \<Rightarrow> TFile \<Rightarrow> TFile list" where
  "getForwardLinks app f =
     (case map_of (resolvedLinks app) (path f) of
        None \<Rightarrow> []
      | Some links \<Rightarrow> concat (map (\<lambda>(targetPath, cnt). markdownFile app targetPath) links))"

text \<open>\<^verbatim>\<open>if (links[file.path])\<close>: the entry exists and its count is not zero.\<close>

definition getBacklinks :: "App \<Rightarrow> TFile \<Rightarrow> TFile list" where
  "getBacklinks app f =
     concat (map (\<lambda>(sourcePath, links).
                    (case map_of links (path f) of
                       None \<Rightarrow> []
                     | Some cnt \<Rightarrow> (if cnt = 0 then [] else markdownFile app sourcePath)))
                 (resolvedLinks app))"

section \<open>Exploration: \<^verbatim>\<open>getAllNodesAndConnections\<close> and \<^verbatim>\<open>exploreAllConnections\<close>\<close>

text \<open>
  \<^verbatim>\<open>connections\<close> is a \<^verbatim>\<open>Map<string, Set<string>>\<close>. Both iterate in insertion order, and
  the edge ids of the build depend on that order, so the map is an association list and a
  set is a duplicate-free list.
\<close>

type_synonym Connections = "(string \<times> string list) list"

definition map_has :: "(string \<times> 'v) list \<Rightarrow> string \<Rightarrow> bool" where
  "map_has m k = (k \<in> fst ` set m)"

text \<open>\<^verbatim>\<open>Map.set\<close>: an existing key keeps its place, a new key goes to the end.\<close>

fun map_set :: "(string \<times> 'v) list \<Rightarrow> string \<Rightarrow> 'v \<Rightarrow> (string \<times> 'v) list" where
  "map_set [] k v = [(k, v)]"
| "map_set ((k', v') # m) k v =
     (if k' = k then (k, v) # m else (k', v') # map_set m k v)"

text \<open>\<^verbatim>\<open>Set.add\<close>.\<close>

definition set_add :: "string list \<Rightarrow> string \<Rightarrow> string list" where
  "set_add s v = (if v \<in> set s then s else s @ [v])"

text \<open>
  \<^verbatim>\<open>connections.get(k)!.add(v)\<close>. Every call site has made sure of the key just before
  (lines 744-746 and 767-769), and no key is ever deleted (lemmas \<open>initConnections_has\<close>,
  \<open>recordBacklink_has_key\<close> and \<open>key_kept_explore\<close> below); on a missing key the source
  would throw, and the model leaves the map as it is.
\<close>

definition connections_add :: "Connections \<Rightarrow> string \<Rightarrow> string \<Rightarrow> Connections" where
  "connections_add m k v =
     (case map_of m k of None \<Rightarrow> m | Some s \<Rightarrow> map_set m k (set_add s v))"

text \<open>
  The three objects that the traversal mutates: \<^verbatim>\<open>visited\<close>, \<^verbatim>\<open>nodes\<close> (the field \<open>found\<close>
  here) and \<^verbatim>\<open>connections\<close>.
\<close>

record ExploreState =
  visited :: "string set"
  found :: "GraphNode list"
  connections :: Connections

text \<open>Lines 744-746: \<^verbatim>\<open>if (!connections.has(file.path)) connections.set(file.path, new Set())\<close>.\<close>

definition initConnections :: "string \<Rightarrow> ExploreState \<Rightarrow> ExploreState" where
  "initConnections p s =
     (if map_has (connections s) p then s
      else s\<lparr>connections := map_set (connections s) p []\<rparr>)"

text \<open>Line 751: the edge \<^verbatim>\<open>file \<rightarrow> linkedFile\<close>.\<close>

definition recordForward :: "TFile \<Rightarrow> TFile \<Rightarrow> ExploreState \<Rightarrow> ExploreState" where
  "recordForward f linkedFile s =
     s\<lparr>connections := connections_add (connections s) (path f) (path linkedFile)\<rparr>"

text \<open>Lines 755-757: a forward link seen for the first time.\<close>

definition discoverForward :: "TFile \<Rightarrow> nat \<Rightarrow> ExploreState \<Rightarrow> ExploreState" where
  "discoverForward linkedFile currentDepth s =
     s\<lparr>visited := insert (path linkedFile) (visited s),
       found := found s @ [\<lparr>tfile = linkedFile, level = currentDepth, isBacklink = False\<rparr>],
       connections := map_set (connections s) (path linkedFile) []\<rparr>"

text \<open>Lines 767-770: the edge \<^verbatim>\<open>linkedFile \<rightarrow> file\<close>, for a backlink.\<close>

definition recordBacklink :: "TFile \<Rightarrow> TFile \<Rightarrow> ExploreState \<Rightarrow> ExploreState" where
  "recordBacklink f linkedFile s =
     (let s' = initConnections (path linkedFile) s
      in s'\<lparr>connections := connections_add (connections s') (path linkedFile) (path f)\<rparr>)"

text \<open>Lines 774-775: a backlink seen for the first time.\<close>

definition discoverBacklink :: "TFile \<Rightarrow> nat \<Rightarrow> ExploreState \<Rightarrow> ExploreState" where
  "discoverBacklink linkedFile currentDepth s =
     s\<lparr>visited := insert (path linkedFile) (visited s),
       found := found s @ [\<lparr>tfile = linkedFile, level = currentDepth, isBacklink = True\<rparr>]\<rparr>"

text \<open>
  The recursive traversal. The two \<^verbatim>\<open>for ... of\<close> loops are folds over the link lists; the
  state each iteration leaves is the state the next one starts from, also across the
  recursive calls.
\<close>

function exploreAllConnections ::
  "App \<Rightarrow> TFile \<Rightarrow> nat \<Rightarrow> nat \<Rightarrow> ExploreState \<Rightarrow> ExploreState" where
  "exploreAllConnections app f maxDepth currentDepth s =
     (if currentDepth > maxDepth then s
      else
        fold (\<lambda>linkedFile s1.
                (let s2 = recordBacklink f linkedFile s1
                 in if path linkedFile \<in> visited s2 then s2
                    else exploreAllConnections app linkedFile maxDepth (currentDepth + 1)
                           (discoverBacklink linkedFile currentDepth s2)))
             (getBacklinks app f)
             (fold (\<lambda>linkedFile s1.
                      (let s2 = recordForward f linkedFile s1
                       in if path linkedFile \<in> visited s2 then s2
                          else exploreAllConnections app linkedFile maxDepth (currentDepth + 1)
                                 (discoverForward linkedFile currentDepth s2)))
                   (getForwardLinks app f)
                   (initConnections (path f) s)))"
  by pat_completeness auto
termination
  by (relation "measure (\<lambda>(app, f, maxDepth, currentDepth, s). Suc maxDepth - currentDepth)")
     auto

declare exploreAllConnections.simps [simp del]

definition getAllNodesAndConnections :: "App \<Rightarrow> TFile \<Rightarrow> nat \<Rightarrow> ExploreState" where
  "getAllNodesAndConnections app centerFile depth =
     exploreAllConnections app centerFile depth 1
       \<lparr>visited = {path centerFile},
        found = [\<lparr>tfile = centerFile, level = 0, isBacklink = False\<rparr>],
        connections = [(path centerFile, [])]\<rparr>"

section \<open>Layers: \<^verbatim>\<open>organizeNodesIntoLayers\<close>\<close>

text \<open>\<^verbatim>\<open>Math.max(...levels, 0)\<close>.\<close>

definition Math_max0 :: "nat list \<Rightarrow> nat" where
  "Math_max0 xs = fold max xs 0"

text \<open>
  \<^verbatim>\<open>Array.prototype.sort\<close> with a comparator is a stable sort: insertion from the right,
  each element going in front of the first one it does not compare greater than.
\<close>

fun insert_sorted :: "('a \<Rightarrow> 'a \<Rightarrow> int) \<Rightarrow> 'a \<Rightarrow> 'a list \<Rightarrow> 'a list" where
  "insert_sorted cmp v [] = [v]"
| "insert_sorted cmp v (w # ws) =
     (if cmp v w \<le> 0 then v # w # ws else w # insert_sorted cmp v ws)"

definition array_sort :: "('a \<Rightarrow> 'a \<Rightarrow> int) \<Rightarrow> 'a list \<Rightarrow> 'a list" where
  "array_sort cmp vs = foldr (insert_sorted cmp) vs []"

definition sortLayer :: "App \<Rightarrow> GraphNode list \<Rightarrow> GraphNode list" where
  "sortLayer app layer =
     array_sort (\<lambda>a b. localeCompare app (basename (tfile a)) (basename (tfile b))) layer"

text \<open>\<^verbatim>\<open>layers[i].push(v)\<close>, for an index in range.\<close>

definition push_at :: "'a list list \<Rightarrow> nat \<Rightarrow> 'a \<Rightarrow> 'a list list" where
  "push_at layers i v = layers[i := layers ! i @ [v]]"

text \<open>The body of \<^verbatim>\<open>allNodes.forEach\<close> (lines 388-402), on the pair of layer arrays.\<close>

definition placeInLayer ::
  "TFile \<Rightarrow> GraphNode \<Rightarrow> GraphNode list list \<times> GraphNode list list \<Rightarrow>
   GraphNode list list \<times> GraphNode list list" where
  "placeInLayer centerFile n ls =
     (case ls of (backlinkLayers, forwardLinkLayers) \<Rightarrow>
        if path (tfile n) \<noteq> path centerFile then
          (if isBacklink n then
             (if level n < length backlinkLayers
              then (push_at backlinkLayers (level n) n, forwardLinkLayers)
              else ls)
           else
             (if level n < length forwardLinkLayers
              then (backlinkLayers, push_at forwardLinkLayers (level n) n)
              else ls))
        else ls)"

definition centerEntry :: "TFile \<Rightarrow> GraphNode" where
  "centerEntry centerFile = \<lparr>tfile = centerFile, level = 0, isBacklink = False\<rparr>"

text \<open>
  The backward loop over \<^verbatim>\<open>backlinkLayers\<close> is the filter of the reversed array, the forward
  loop over \<^verbatim>\<open>forwardLinkLayers\<close> the filter of the array. The \<^verbatim>\<open>connections\<close> argument is not
  used by the source either.
\<close>

definition organizeNodesIntoLayers ::
  "App \<Rightarrow> TFile \<Rightarrow> GraphNode list \<Rightarrow> Connections \<Rightarrow> GraphNode list list" where
  "organizeNodesIntoLayers app centerFile allNodes conns =
     (let maxBacklinkLevel = Math_max0 (map level (filter isBacklink allNodes));
          maxForwardLinkLevel = Math_max0 (map level (filter (\<lambda>n. \<not> isBacklink n) allNodes));
          backlinkLayers0 = replicate (maxBacklinkLevel + 1) [];
          forwardLinkLayers0 = replicate (maxForwardLinkLevel + 1) [];
          backlinkLayers1 = push_at backlinkLayers0 0 (centerEntry centerFile);
          forwardLinkLayers1 = push_at forwardLinkLayers0 0 (centerEntry centerFile);
          filled = fold (placeInLayer centerFile) allNodes (backlinkLayers1, forwardLinkLayers1);
          backlinkLayers = map (sortLayer app) (fst filled);
          forwardLinkLayers = map (sortLayer app) (snd filled)
      in filter (\<lambda>layer. length layer > 0) (rev backlinkLayers) @
         filter (\<lambda>layer. length layer > 0) forwardLinkLayers)"

section \<open>The from-scratch build: \<^verbatim>\<open>createCanvasContent\<close>\<close>

definition nodeWidth :: rat where "nodeWidth = 300"
definition nodeHeight :: rat where "nodeHeight = 200"
definition horizontalSpacing :: rat where "horizontalSpacing = 450"
definition verticalSpacing :: rat where "verticalSpacing = 280"

text \<open>The decimal digits of an index, for \<^verbatim>\<open>`node-${nodeIndex++}`\<close> and \<^verbatim>\<open>`edge-${edgeIndex++}`\<close>.\<close>

definition digit :: "nat \<Rightarrow> char" where
  "digit d = ''0123456789'' ! d"

fun string_of_nat :: "nat \<Rightarrow> string" where
  "string_of_nat n =
     (if 10 \<le> n then string_of_nat (n div 10) @ [digit (n mod 10)] else [digit n])"

declare string_of_nat.simps [simp del]

text \<open>A string in a condition: the empty string counts as false.\<close>

definition truthy :: "string \<Rightarrow> bool" where
  "truthy str = (str \<noteq> [])"

text \<open>\<^verbatim>\<open>Array.prototype.findIndex\<close>: the first index that satisfies the test, or \<open>-1\<close>.\<close>

fun findIndex :: "('a \<Rightarrow> bool) \<Rightarrow> 'a list \<Rightarrow> int" where
  "findIndex t [] = - 1"
| "findIndex t (v # vs) =
     (if t v then 0 else (let r = findIndex t vs in if r < 0 then - 1 else r + 1))"

record PlaceState =
  nodeIndex :: nat
  placed :: "CanvasNode list"
  fileToNodeId :: "string \<rightharpoonup> string"

record EdgeState =
  edgeIndex :: nat
  emitted :: "CanvasEdge list"

definition centerNode :: "CanvasAutoGenSettings \<Rightarrow> TFile \<Rightarrow> CanvasNode" where
  "centerNode settings activeFile =
     \<lparr>node_id = ''center-node'', node_type = ''file'', node_file = path activeFile,
      node_x = canvasWidth settings / 2, node_y = canvasHeight settings / 2,
      node_width = nodeWidth, node_height = nodeHeight\<rparr>"

text \<open>Lines 253-269: one node of a layer; the centre node is skipped.\<close>

definition placeNode ::
  "TFile \<Rightarrow> rat \<Rightarrow> rat \<Rightarrow> nat \<times> GraphNode \<Rightarrow> PlaceState \<Rightarrow> PlaceState" where
  "placeNode activeFile layerX layerStartY e st =
     (case e of (nodeInLayerIndex, nodeInfo) \<Rightarrow>
        if path (tfile nodeInfo) \<noteq> path activeFile then
          (let nodeId = ''node-'' @ string_of_nat (nodeIndex st);
               nodeY = layerStartY + of_nat nodeInLayerIndex * verticalSpacing
           in st\<lparr>nodeIndex := nodeIndex st + 1,
                 fileToNodeId := (fileToNodeId st)(path (tfile nodeInfo) \<mapsto> nodeId),
                 placed := placed st @
                   [\<lparr>node_id = nodeId, node_type = ''file'', node_file = path (tfile nodeInfo),
                     node_x = layerX, node_y = nodeY,
                     node_width = nodeWidth, node_height = nodeHeight\<rparr>]\<rparr>)
        else st)"

text \<open>Lines 233-271: one layer.\<close>

definition placeLayer ::
  "CanvasAutoGenSettings \<Rightarrow> TFile \<Rightarrow> int \<Rightarrow> nat \<times> GraphNode list \<Rightarrow> PlaceState \<Rightarrow> PlaceState"
  where
  "placeLayer settings activeFile centerLayerIndex e st =
     (case e of (layerIndex, layer) \<Rightarrow>
        (let layerX =
               (if int layerIndex = centerLayerIndex then canvasWidth settings / 2
                else (let relativeOffset = int layerIndex - centerLayerIndex;
                          offset = of_int relativeOffset * horizontalSpacing
                      in canvasWidth settings / 2 + offset));
             totalLayerHeight = (of_nat (length layer) - 1) * verticalSpacing;
             layerStartY = canvasHeight settings / 2 - totalLayerHeight / 2
         in fold (placeNode activeFile layerX layerStartY) (enumerate 0 layer) st))"

definition placeLayers ::
  "CanvasAutoGenSettings \<Rightarrow> TFile \<Rightarrow> GraphNode list list \<Rightarrow> PlaceState" where
  "placeLayers settings activeFile layers =
     (let centerLayerIndex =
            findIndex (\<lambda>layer. \<exists>n \<in> set layer. path (tfile n) = path activeFile) layers
      in fold (placeLayer settings activeFile centerLayerIndex) (enumerate 0 layers)
           \<lparr>nodeIndex = 0, placed = [centerNode settings activeFile],
            fileToNodeId = [path activeFile \<mapsto> ''center-node'']\<rparr>)"

text \<open>Lines 281-292: one target of one source.\<close>

definition addEdge :: "(string \<rightharpoonup> string) \<Rightarrow> string \<Rightarrow> string \<Rightarrow> EdgeState \<Rightarrow> EdgeState" where
  "addEdge ids fromNodeId toPath st =
     (case ids toPath of
        None \<Rightarrow> st
      | Some toNodeId \<Rightarrow>
          if truthy toNodeId \<and> fromNodeId \<noteq> toNodeId then
            st\<lparr>edgeIndex := edgeIndex st + 1,
               emitted := emitted st @
                 [\<lparr>edge_id = ''edge-'' @ string_of_nat (edgeIndex st), fromNode = fromNodeId,
                   fromSide = ''right'', toNode = toNodeId, toSide = ''left''\<rparr>]\<rparr>
          else st)"

text \<open>Lines 278-294: one entry of \<^verbatim>\<open>connections\<close>.\<close>

definition addEdgesFrom ::
  "(string \<rightharpoonup> string) \<Rightarrow> string \<times> string list \<Rightarrow> EdgeState \<Rightarrow> EdgeState" where
  "addEdgesFrom ids e st =
     (case e of (fromPath, toPaths) \<Rightarrow>
        (case ids fromPath of
           None \<Rightarrow> st
         | Some fromNodeId \<Rightarrow>
             if truthy fromNodeId then fold (addEdge ids fromNodeId) toPaths st else st))"

definition createEdges :: "(string \<rightharpoonup> string) \<Rightarrow> Connections \<Rightarrow> CanvasEdge list" where
  "createEdges ids conns =
     emitted (fold (addEdgesFrom ids) conns \<lparr>edgeIndex = 0, emitted = []\<rparr>)"

text \<open>
  The canvas that \<^verbatim>\<open>createCanvasContent\<close> serialises; \<open>createdAt\<close> and \<open>modifiedAt\<close> are what
  the two \<^verbatim>\<open>new Date().toISOString()\<close> give.
\<close>

definition createCanvasContent ::
  "App \<Rightarrow> CanvasAutoGenSettings \<Rightarrow> string \<Rightarrow> string \<Rightarrow> TFile \<Rightarrow> CanvasData" where
  "createCanvasContent app settings createdAt modifiedAt activeFile =
     (let explored = getAllNodesAndConnections app activeFile (linkDepth settings);
          layers = organizeNodesIntoLayers app activeFile (found explored) (connections explored);
          st = placeLayers settings activeFile layers
      in \<lparr>nodes = placed st,
          edges = createEdges (fileToNodeId st) (connections explored),
          meta = \<lparr>created = createdAt, modified = modifiedAt\<rparr>\<rparr>)"

section \<open>Growing a canvas: \<^verbatim>\<open>expandCanvas\<close>\<close>

text \<open>
  The filter of lines 499-506 (and again 515-521, 528-534): the nodes of the target column
  for which a box of the fixed height \<open>nodeHeight\<close> around their y, with 20 units added
  above and below, meets a box of that height around \<open>bestY\<close>. The height that a node
  of the canvas carries is not read. The comparisons are on exact rationals;
  \<open>conflictsAtR\<close> below has the rounding of the source's doubles.
\<close>

definition conflictsAt :: "CanvasNode list \<Rightarrow> rat \<Rightarrow> CanvasNode list" where
  "conflictsAt existingNodesAtTargetX bestY =
     filter (\<lambda>existingNode.
               (let existingTop = node_y existingNode - nodeHeight / 2 - 20;
                    existingBottom = node_y existingNode + nodeHeight / 2 + 20;
                    newNodeTop = bestY - nodeHeight / 2;
                    newNodeBottom = bestY + nodeHeight / 2
                in newNodeTop < existingBottom \<and> newNodeBottom > existingTop))
            existingNodesAtTargetX"

text \<open>Lines 543-553: the middle of the first gap that is large enough.\<close>

fun findGap :: "rat list \<Rightarrow> rat option" where
  "findGap (a # b # ys) =
     (let gapStart = a + nodeHeight / 2 + verticalSpacing;
          gapEnd = b - nodeHeight / 2 - verticalSpacing
      in if gapEnd - gapStart \<ge> nodeHeight then Some (gapStart + (gapEnd - gapStart) / 2)
         else findGap (b # ys))"
| "findGap ys = None"

text \<open>\<^verbatim>\<open>Math.max(...ys)\<close>; \<open>None\<close> stands for the \<^verbatim>\<open>-Infinity\<close> of an empty list.\<close>

fun Math_max :: "rat list \<Rightarrow> rat option" where
  "Math_max [] = None"
| "Math_max (y # ys) = Some (fold max ys y)"

text \<open>
  Lines 495-562: the vertical position of one new node. Where the source takes the maximum
  of the column's positions, a conflict has been found, so the column is not empty
  (lemma \<open>conflictsAt_column\<close> below) and the \<open>None\<close> branch is never taken.
\<close>

definition findBestY :: "CanvasNode list \<Rightarrow> rat \<Rightarrow> rat" where
  "findBestY existingNodesAtTargetX idealY =
     (case conflictsAt existingNodesAtTargetX idealY of
        [] \<Rightarrow> idealY
      | conflict # _ \<Rightarrow>
          (let conflictY = node_y conflict;
               tryAbove = conflictY - nodeHeight - verticalSpacing
           in if length (conflictsAt existingNodesAtTargetX tryAbove) = 0 then tryAbove
              else
                (let tryBelow = conflictY + nodeHeight + verticalSpacing
                 in if length (conflictsAt existingNodesAtTargetX tryBelow) = 0 then tryBelow
                    else
                      (let allYPositions = sort (map node_y existingNodesAtTargetX)
                       in case findGap allYPositions of
                            Some gapMiddle \<Rightarrow> gapMiddle
                          | None \<Rightarrow>
                              (case Math_max allYPositions of
                                 Some maxY \<Rightarrow> maxY + nodeHeight + verticalSpacing
                               | None \<Rightarrow> idealY)))))"

text \<open>Lines 447-449 and 454-462: the links of the focus note that the canvas does not show yet.\<close>

definition newConnections :: "App \<Rightarrow> TFile \<Rightarrow> Direction \<Rightarrow> TFile list" where
  "newConnections app focusNote direction =
     (if direction = Left then getBacklinks app focusNote else getForwardLinks app focusNote)"

definition nodesToAdd :: "App \<Rightarrow> CanvasData \<Rightarrow> TFile \<Rightarrow> Direction \<Rightarrow> TFile list" where
  "nodesToAdd app canvasData focusNote direction =
     (let existingPaths = set (map node_file (nodes canvasData))
      in filter (\<lambda>linkedFile. path linkedFile \<notin> existingPaths)
           (newConnections app focusNote direction))"

text \<open>Line 470.\<close>

definition findFocusNode :: "CanvasData \<Rightarrow> TFile \<Rightarrow> CanvasNode option" where
  "findFocusNode canvasData focusNote =
     find (\<lambda>n. node_file n = path focusNote) (nodes canvasData)"

definition targetX :: "CanvasNode \<Rightarrow> Direction \<Rightarrow> rat" where
  "targetX focusNode direction =
     node_x focusNode + (if direction = Left then - horizontalSpacing else horizontalSpacing)"

text \<open>Lines 480-483.\<close>

definition existingNodesAtTargetX :: "CanvasData \<Rightarrow> rat \<Rightarrow> CanvasNode list" where
  "existingNodesAtTargetX canvasData tx =
     filter (\<lambda>n. \<bar>node_x n - tx\<bar> < nodeWidth + 100) (nodes canvasData)"

text \<open>Lines 488-565: the position of the \<open>i\<close>-th new node.\<close>

definition newNodePosition ::
  "CanvasData \<Rightarrow> CanvasNode \<Rightarrow> Direction \<Rightarrow> nat \<Rightarrow> nat \<Rightarrow> rat \<times> rat" where
  "newNodePosition canvasData focusNode direction howMany i =
     (let tx = targetX focusNode direction;
          idealStartY = node_y focusNode - ((of_nat howMany - 1) * verticalSpacing) / 2;
          idealY = idealStartY + of_nat i * verticalSpacing
      in (tx, findBestY (existingNodesAtTargetX canvasData tx) idealY))"

text \<open>
  Lines 573-592. \<open>freshNodeId i\<close> and \<open>freshEdgeId i\<close> are the ids that the clock and the
  random generator give in iteration \<open>i\<close>.
\<close>

definition newNode :: "(nat \<Rightarrow> string) \<Rightarrow> TFile \<Rightarrow> rat \<times> rat \<Rightarrow> nat \<Rightarrow> CanvasNode" where
  "newNode freshNodeId linkedFile position i =
     \<lparr>node_id = freshNodeId i, node_type = ''file'', node_file = path linkedFile,
      node_x = fst position, node_y = snd position,
      node_width = nodeWidth, node_height = nodeHeight\<rparr>"

definition newEdge ::
  "(nat \<Rightarrow> string) \<Rightarrow> Direction \<Rightarrow> CanvasNode \<Rightarrow> CanvasNode \<Rightarrow> nat \<Rightarrow> CanvasEdge" where
  "newEdge freshEdgeId direction focusNode n i =
     \<lparr>edge_id = freshEdgeId i,
      fromNode = (if direction = Left then node_id n else node_id focusNode),
      fromSide = ''right'',
      toNode = (if direction = Left then node_id focusNode else node_id n),
      toSide = ''left''\<rparr>"

definition newNodes ::
  "(nat \<Rightarrow> string) \<Rightarrow> CanvasData \<Rightarrow> CanvasNode \<Rightarrow> Direction \<Rightarrow> TFile list \<Rightarrow> CanvasNode list"
  where
  "newNodes freshNodeId canvasData focusNode direction toAdd =
     map (\<lambda>i. newNode freshNodeId (toAdd ! i)
                 (newNodePosition canvasData focusNode direction (length toAdd) i) i)
         [0..<length toAdd]"

text \<open>
  The persisted canvas file is modelled by what \<^verbatim>\<open>JSON.parse\<close> makes of its content: \<open>None\<close>
  when parsing throws. The result is the content of the file after the call; the source
  writes the file only on the last path.
\<close>

definition expandCanvas ::
  "App \<Rightarrow> (nat \<Rightarrow> string) \<Rightarrow> (nat \<Rightarrow> string) \<Rightarrow> string \<Rightarrow>
   CanvasData option \<Rightarrow> TFile \<Rightarrow> Direction \<Rightarrow> CanvasData option" where
  "expandCanvas app freshNodeId freshEdgeId now content focusNote direction =
     (case content of
        None \<Rightarrow> content
      | Some canvasData \<Rightarrow>
          (let toAdd = nodesToAdd app canvasData focusNote direction
           in if length toAdd = 0 then content
              else
                (case findFocusNode canvasData focusNote of
                   None \<Rightarrow> content
                 | Some focusNode \<Rightarrow>
                     (let added = newNodes freshNodeId canvasData focusNode direction toAdd;
                          addedEdges =
                            map (\<lambda>i. newEdge freshEdgeId direction focusNode (added ! i) i)
                                [0..<length toAdd]
                      in if length added > 0 then
                           Some (canvasData
                                  \<lparr>nodes := nodes canvasData @ added,
                                   edges := edges canvasData @ addedEdges,
                                   meta := (meta canvasData)\<lparr>modified := now\<rparr>\<rparr>)
                         else content))))"

subsection \<open>The search in double arithmetic\<close>

text \<open>
  Lines 477-564 once more, with the result of every arithmetic operation passed through
  a rounding function \<open>rd\<close>: an IEEE operation returns the rounded exact result. Negation,
  \<^verbatim>\<open>Math.abs\<close>, \<^verbatim>\<open>Math.max\<close> and the comparisons do not round. The sort of line 540 reads
  only the sign of what its comparator returns.
\<close>

definition signOf :: "rat \<Rightarrow> int" where
  "signOf v = (if v < 0 then - 1 else if 0 < v then 1 else 0)"

definition targetXR :: "(rat \<Rightarrow> rat) \<Rightarrow> CanvasNode \<Rightarrow> Direction \<Rightarrow> rat" where
  "targetXR rd focusNode direction =
     rd (node_x focusNode + (if direction = Left then - horizontalSpacing else horizontalSpacing))"

definition existingNodesAtTargetXR ::
  "(rat \<Rightarrow> rat) \<Rightarrow> CanvasData \<Rightarrow> rat \<Rightarrow> CanvasNode list" where
  "existingNodesAtTargetXR rd canvasData tx =
     filter (\<lambda>n. \<bar>rd (node_x n - tx)\<bar> < rd (nodeWidth + 100)) (nodes canvasData)"

definition conflictsAtR :: "(rat \<Rightarrow> rat) \<Rightarrow> CanvasNode list \<Rightarrow> rat \<Rightarrow> CanvasNode list" where
  "conflictsAtR rd existing bestY =
     filter (\<lambda>existingNode.
               (let existingTop = rd (rd (node_y existingNode - rd (nodeHeight / 2)) - 20);
                    existingBottom = rd (rd (node_y existingNode + rd (nodeHeight / 2)) + 20);
                    newNodeTop = rd (bestY - rd (nodeHeight / 2));
                    newNodeBottom = rd (bestY + rd (nodeHeight / 2))
                in newNodeTop < existingBottom \<and> newNodeBottom > existingTop))
            existing"

fun findGapR :: "(rat \<Rightarrow> rat) \<Rightarrow> rat list \<Rightarrow> rat option" where
  "findGapR rd (a # b # ys) =
     (let gapStart = rd (rd (a + rd (nodeHeight / 2)) + verticalSpacing);
          gapEnd = rd (rd (b - rd (nodeHeight / 2)) - verticalSpacing)
      in if rd (gapEnd - gapStart) \<ge> nodeHeight
         then Some (rd (gapStart + rd (rd (gapEnd - gapStart) / 2)))
         else findGapR rd (b # ys))"
| "findGapR rd ys = None"

definition findBestYR :: "(rat \<Rightarrow> rat) \<Rightarrow> CanvasNode list \<Rightarrow> rat \<Rightarrow> rat" where
  "findBestYR rd existing idealY =
     (case conflictsAtR rd existing idealY of
        [] \<Rightarrow> idealY
      | conflict # _ \<Rightarrow>
          (let conflictY = node_y conflict;
               tryAbove = rd (rd (conflictY - nodeHeight) - verticalSpacing)
           in if length (conflictsAtR rd existing tryAbove) = 0 then tryAbove
              else
                (let tryBelow = rd (rd (conflictY + nodeHeight) + verticalSpacing)
                 in if length (conflictsAtR rd existing tryBelow) = 0 then tryBelow
                    else
                      (let allYPositions =
                             array_sort (\<lambda>a b. signOf (rd (a - b))) (map node_y existing)
                       in case findGapR rd allYPositions of
                            Some gapMiddle \<Rightarrow> gapMiddle
                          | None \<Rightarrow>
                              (case Math_max allYPositions of
                                 Some maxY \<Rightarrow> rd (rd (maxY + nodeHeight) + verticalSpacing)
                               | None \<Rightarrow> idealY)))))"

definition newNodePositionR ::
  "(rat \<Rightarrow> rat) \<Rightarrow> CanvasData \<Rightarrow> CanvasNode \<Rightarrow> Direction \<Rightarrow> nat \<Rightarrow> nat \<Rightarrow> rat \<times> rat" where
  "newNodePositionR rd canvasData focusNode direction howMany i =
     (let tx = targetXR rd focusNode direction;
          idealStartY =
            rd (node_y focusNode - rd (rd (rd (of_nat howMany - 1) * verticalSpacing) / 2));
          idealY = rd (idealStartY + rd (of_nat i * verticalSpacing))
      in (tx, findBestYR rd (existingNodesAtTargetXR rd canvasData tx) idealY))"

section \<open>Example vaults\<close>

definition noteA :: TFile where
  "noteA = \<lparr>path = ''A.md'', basename = ''A'', extension = ''md''\<rparr>"

definition noteB :: TFile where
  "noteB = \<lparr>path = ''B.md'', basename = ''B'', extension = ''md''\<rparr>"

definition noteC :: TFile where
  "noteC = \<lparr>path = ''C.md'', basename = ''C'', extension = ''md''\<rparr>"

definition noteD :: TFile where
  "noteD = \<lparr>path = ''D.md'', basename = ''D'', extension = ''md''\<rparr>"

text \<open>A vault in which note A links to note B and nothing else links.\<close>

definition vaultAB :: App where
  "vaultAB =
     \<lparr>resolvedLinks = [(''A.md'', [(''B.md'', 1)]), (''B.md'', [])],
      vault = [(''A.md'', IsFile noteA), (''B.md'', IsFile noteB)],
      localeCompare = (\<lambda>a b. 0)\<rparr>"

text \<open>A vault whose only note links to itself.\<close>

definition vaultSelf :: App where
  "vaultSelf =
     \<lparr>resolvedLinks = [(''A.md'', [(''A.md'', 1)])],
      vault = [(''A.md'', IsFile noteA)],
      localeCompare = (\<lambda>a b. 0)\<rparr>"

text \<open>A vault in which note A links to the notes B, C and D.\<close>

definition vaultABCD :: App where
  "vaultABCD =
     \<lparr>resolvedLinks = [(''A.md'', [(''B.md'', 1), (''C.md'', 1), (''D.md'', 1)])],
      vault = [(''A.md'', IsFile noteA), (''B.md'', IsFile noteB),
               (''C.md'', IsFile noteC), (''D.md'', IsFile noteD)],
      localeCompare = (\<lambda>a b. 0)\<rparr>"

text \<open>A cyclic vault: A links to B and B links back to A.\<close>

definition vaultCycle :: App where
  "vaultCycle =
     \<lparr>resolvedLinks = [(''A.md'', [(''B.md'', 1)]), (''B.md'', [(''A.md'', 2)])],
      vault = [(''A.md'', IsFile noteA), (''B.md'', IsFile noteB)],
      localeCompare = (\<lambda>a b. 0)\<rparr>"

text \<open>A vault in which note C links to note A: A has one backlink and no forward link.\<close>

definition vaultCA :: App where
  "vaultCA =
     \<lparr>resolvedLinks = [(''C.md'', [(''A.md'', 1)])],
      vault = [(''A.md'', IsFile noteA), (''C.md'', IsFile noteC)],
      localeCompare = (\<lambda>a b. 0)\<rparr>"

text \<open>A chain: A links to B and B links to C.\<close>

definition vaultChain :: App where
  "vaultChain =
     \<lparr>resolvedLinks = [(''A.md'', [(''B.md'', 1)]), (''B.md'', [(''C.md'', 1)])],
      vault = [(''A.md'', IsFile noteA), (''B.md'', IsFile noteB), (''C.md'', IsFile noteC)],
      localeCompare = (\<lambda>a b. 0)\<rparr>"

text \<open>The two entries that the exploration of \<open>vaultAB\<close> from A finds.\<close>

definition entryA :: GraphNode where
  "entryA = \<lparr>tfile = noteA, level = 0, isBacklink = False\<rparr>"

definition entryB :: GraphNode where
  "entryB = \<lparr>tfile = noteB, level = 1, isBacklink = False\<rparr>"

text \<open>Ids as the clock and the random generator might give them in one call.\<close>

definition freshId :: "string \<Rightarrow> nat \<Rightarrow> string" where
  "freshId prefix i = prefix @ string_of_nat i"

text \<open>A canvas that holds only note A at the centre of the default canvas.\<close>

definition canvasA :: CanvasData where
  "canvasA =
     \<lparr>nodes = [centerNode DEFAULT_SETTINGS noteA], edges = [],
      meta = \<lparr>created = ''t0'', modified = ''t0''\<rparr>\<rparr>"

definition nodeB :: CanvasNode where
  "nodeB = \<lparr>node_id = ''node-1-0'', node_type = ''file'', node_file = ''B.md'',
            node_x = 850, node_y = 300, node_width = 300, node_height = 200\<rparr>"

definition edgeAB :: CanvasEdge where
  "edgeAB = \<lparr>edge_id = ''edge-1-0'', fromNode = ''center-node'', fromSide = ''right'',
             toNode = ''node-1-0'', toSide = ''left''\<rparr>"

text \<open>\<open>canvasA\<close> after note B has been added to the right of A.\<close>

definition canvasAB :: CanvasData where
  "canvasAB =
     \<lparr>nodes = [centerNode DEFAULT_SETTINGS noteA, nodeB], edges = [edgeAB],
      meta = \<lparr>created = ''t0'', modified = ''t1''\<rparr>\<rparr>"

definition nodeC :: CanvasNode where
  "nodeC = \<lparr>node_id = ''node-2-0'', node_type = ''file'', node_file = ''C.md'',
            node_x = 850, node_y = - 180, node_width = 300, node_height = 200\<rparr>"

definition nodeD :: CanvasNode where
  "nodeD = \<lparr>node_id = ''node-2-1'', node_type = ''file'', node_file = ''D.md'',
            node_x = 850, node_y = - 180, node_width = 300, node_height = 200\<rparr>"

definition edgeAC :: CanvasEdge where
  "edgeAC = \<lparr>edge_id = ''edge-2-0'', fromNode = ''center-node'', fromSide = ''right'',
             toNode = ''node-2-0'', toSide = ''left''\<rparr>"

definition edgeAD :: CanvasEdge where
  "edgeAD = \<lparr>edge_id = ''edge-2-1'', fromNode = ''center-node'', fromSide = ''right'',
             toNode = ''node-2-1'', toSide = ''left''\<rparr>"

text \<open>\<open>canvasAB\<close> after the notes C and D have been added to the right of A.\<close>

definition canvasABCD :: CanvasData where
  "canvasABCD =
     \<lparr>nodes = [centerNode DEFAULT_SETTINGS noteA, nodeB, nodeC, nodeD],
      edges = [edgeAB, edgeAC, edgeAD],
      meta = \<lparr>created = ''t0'', modified = ''t2''\<rparr>\<rparr>"

text \<open>\<open>canvasA\<close> after note B has been added to the left of A, as a backlink.\<close>

definition nodeBleft :: CanvasNode where
  "nodeBleft = \<lparr>node_id = ''node-1-0'', node_type = ''file'', node_file = ''B.md'',
                node_x = - 50, node_y = 300, node_width = 300, node_height = 200\<rparr>"

definition edgeBA :: CanvasEdge where
  "edgeBA = \<lparr>edge_id = ''edge-1-0'', fromNode = ''node-1-0'', fromSide = ''right'',
             toNode = ''center-node'', toSide = ''left''\<rparr>"

definition canvasBA :: CanvasData where
  "canvasBA =
     \<lparr>nodes = [centerNode DEFAULT_SETTINGS noteA, nodeBleft], edges = [edgeBA],
      meta = \<lparr>created = ''t0'', modified = ''t1''\<rparr>\<rparr>"

text \<open>
  A canvas with A at \<open>(0, 520)\<close> and a note E at \<open>(450, 300)\<close>, in the column to the right
  of A; and the same canvas after B has been added to the right of A.
\<close>

definition nodeAlow :: CanvasNode where
  "nodeAlow = \<lparr>node_id = ''center-node'', node_type = ''file'', node_file = ''A.md'',
               node_x = 0, node_y = 520, node_width = 300, node_height = 200\<rparr>"

definition nodeE :: CanvasNode where
  "nodeE = \<lparr>node_id = ''node-0'', node_type = ''file'', node_file = ''E.md'',
            node_x = 450, node_y = 300, node_width = 300, node_height = 200\<rparr>"

definition nodeBlow :: CanvasNode where
  "nodeBlow = \<lparr>node_id = ''node-1-0'', node_type = ''file'', node_file = ''B.md'',
               node_x = 450, node_y = 520, node_width = 300, node_height = 200\<rparr>"

definition canvasAE :: CanvasData where
  "canvasAE =
     \<lparr>nodes = [nodeAlow, nodeE], edges = [],
      meta = \<lparr>created = ''t0'', modified = ''t0''\<rparr>\<rparr>"

definition canvasAEB :: CanvasData where
  "canvasAEB =
     \<lparr>nodes = [nodeAlow, nodeE, nodeBlow], edges = [edgeAB],
      meta = \<lparr>created = ''t0'', modified = ''t1''\<rparr>\<rparr>"

text \<open>
  A canvas with A at the centre and a note T of height 1000 at \<open>(850, 700)\<close>, in the
  column to the right of A; and the same canvas after B has been added to the right of A.
\<close>

definition nodeT :: CanvasNode where
  "nodeT = \<lparr>node_id = ''node-0'', node_type = ''file'', node_file = ''T.md'',
            node_x = 850, node_y = 700, node_width = 300, node_height = 1000\<rparr>"

definition canvasAT :: CanvasData where
  "canvasAT =
     \<lparr>nodes = [centerNode DEFAULT_SETTINGS noteA, nodeT], edges = [],
      meta = \<lparr>created = ''t0'', modified = ''t0''\<rparr>\<rparr>"

definition canvasATB :: CanvasData where
  "canvasATB =
     \<lparr>nodes = [centerNode DEFAULT_SETTINGS noteA, nodeT, nodeB], edges = [edgeAB],
      meta = \<lparr>created = ''t0'', modified = ''t1''\<rparr>\<rparr>"

section \<open>Predicates of the properties\<close>



text \<open>What the traversal keeps true of its node list: no path twice, every path visited.\<close>

definition nodesInv :: "ExploreState \<Rightarrow> bool" where
  "nodesInv s =
     (distinct (map (path \<circ> tfile) (found s)) \<and>
      set (map (path \<circ> tfile) (found s)) \<subseteq> visited s)"

text \<open>Lines 194-197: the layers that the build hands to the placement.\<close>

definition exploredLayers :: "App \<Rightarrow> TFile \<Rightarrow> nat \<Rightarrow> GraphNode list list" where
  "exploredLayers app centerFile depth =
     (let explored = getAllNodesAndConnections app centerFile depth
      in organizeNodesIntoLayers app centerFile (found explored) (connections explored))"

text \<open>
  An edge stands for a recorded connection between two placed nodes: some entry of the
  connection map has a source path and a target path whose nodes carry the edge's two ids.
\<close>

definition edgeOf :: "Connections \<Rightarrow> CanvasNode list \<Rightarrow> CanvasEdge \<Rightarrow> bool" where
  "edgeOf conns ns e =
     (\<exists>(fromPath, toPaths) \<in> set conns. \<exists>toPath \<in> set toPaths.
        \<exists>nf \<in> set ns. \<exists>nt \<in> set ns.
          node_file nf = fromPath \<and> node_id nf = fromNode e \<and>
          node_file nt = toPath \<and> node_id nt = toNode e)"

text \<open>Every id in \<^verbatim>\<open>fileToNodeId\<close> is the id of a placed node of that file.\<close>

definition idsPlaced :: "PlaceState \<Rightarrow> bool" where
  "idsPlaced st =
     (\<forall>p i. fileToNodeId st p = Some i \<longrightarrow>
        (\<exists>n \<in> set (placed st). node_file n = p \<and> node_id n = i))"

text \<open>What the edge loop keeps true of the edges emitted so far.\<close>

definition edgesFrom :: "(string \<rightharpoonup> string) \<Rightarrow> Connections \<Rightarrow> EdgeState \<Rightarrow> bool" where
  "edgesFrom ids conns st =
     (\<forall>e \<in> set (emitted st).
        fromNode e \<noteq> toNode e \<and> fromSide e = ''right'' \<and> toSide e = ''left'' \<and>
        (\<exists>(fromPath, toPaths) \<in> set conns. \<exists>toPath \<in> set toPaths.
           ids fromPath = Some (fromNode e) \<and> ids toPath = Some (toNode e)))"

text \<open>The canvas that \<open>expandCanvas\<close> writes when it reaches its last path.\<close>

definition expanded ::
  "App \<Rightarrow> (nat \<Rightarrow> string) \<Rightarrow> (nat \<Rightarrow> string) \<Rightarrow> string \<Rightarrow> CanvasData \<Rightarrow> TFile \<Rightarrow>
   Direction \<Rightarrow> CanvasNode \<Rightarrow> CanvasData" where
  "expanded app fn fe now d focus dir fnode =
     d\<lparr>nodes := nodes d @ newNodes fn d fnode dir (nodesToAdd app d focus dir),
       edges := edges d @
         map (\<lambda>i. newEdge fe dir fnode (newNodes fn d fnode dir (nodesToAdd app d focus dir) ! i) i)
             [0..<length (nodesToAdd app d focus dir)],
       meta := (meta d)\<lparr>modified := now\<rparr>\<rparr>"

text \<open>
  The overlap of claim C4, in the claim's words: two nodes in the same column band
  (their x less than \<open>nodeWidth + 100\<close> apart) whose boxes, each of the node's own height
  around the node's y and with 20 units added above and below, meet on the y-axis.
\<close>

definition paddedOverlap :: "CanvasNode \<Rightarrow> CanvasNode \<Rightarrow> bool" where
  "paddedOverlap n m =
     (\<bar>node_x n - node_x m\<bar> < nodeWidth + 100 \<and>
      node_y n - node_height n / 2 - 20 < node_y m + node_height m / 2 + 20 \<and>
      node_y m - node_height m / 2 - 20 < node_y n + node_height n / 2 + 20)"

fun overlapFree :: "CanvasNode list \<Rightarrow> bool" where
  "overlapFree [] = True"
| "overlapFree (n # ns) = ((\<forall>m \<in> set ns. \<not> paddedOverlap n m) \<and> overlapFree ns)"

text \<open>
  What the code does test, on the nodes' own heights: the box of a new node \<open>n\<close>, without
  padding, meets the box of an old node \<open>e\<close> with 20 units added above and below.
\<close>

definition boxMeetsPadded :: "CanvasNode \<Rightarrow> CanvasNode \<Rightarrow> bool" where
  "boxMeetsPadded n e =
     (node_y n - node_height n / 2 < node_y e + node_height e / 2 + 20 \<and>
      node_y e - node_height e / 2 - 20 < node_y n + node_height n / 2)"

text \<open>
  The same without the heights: two nodes are apart when they are not in the same column
  band or their y differ by at least \<open>nodeHeight + 20\<close>.
\<close>

definition apart :: "CanvasNode \<Rightarrow> CanvasNode \<Rightarrow> bool" where
  "apart n m =
     (\<bar>node_x n - node_x m\<bar> < nodeWidth + 100 \<longrightarrow> nodeHeight + 20 \<le> \<bar>node_y n - node_y m\<bar>)"

fun clearNodes :: "CanvasNode list \<Rightarrow> bool" where
  "clearNodes [] = True"
| "clearNodes (n # ns) = ((\<forall>m \<in> set ns. apart n m) \<and> clearNodes ns)"

text \<open>
  The finite values of an IEEE double: an integer of magnitude below \<open>2^53\<close> times a power
  of two with exponent from \<open>-1074\<close> to \<open>971\<close>. An operation of the code whose exact result
  is such a value returns that value: the rounding of the code is one of the functions
  \<open>roundsToDouble\<close>.
\<close>

definition isDouble :: "rat \<Rightarrow> bool" where
  "isDouble v =
     (\<exists>m e :: int. \<bar>m\<bar> < 2 ^ 53 \<and> - 1074 \<le> e \<and> e \<le> 971 \<and> v = of_int m * 2 powi e)"

definition roundsToDouble :: "(rat \<Rightarrow> rat) \<Rightarrow> bool" where
  "roundsToDouble rd = (\<forall>v. isDouble v \<longrightarrow> rd v = v)"

text \<open>Multiples of \<open>2^-k\<close>.\<close>

definition onGrid :: "nat \<Rightarrow> rat \<Rightarrow> bool" where
  "onGrid k v = (v * 2 ^ k \<in> \<int>)"

text \<open>
  Coordinates on which the search of \<open>expandCanvas\<close> computes without rounding: multiples
  of \<open>1/1024\<close> of magnitude at most \<open>2^30\<close>. The values computed from them are multiples of
  \<open>1/2048\<close> of magnitude at most \<open>2^40\<close>.
\<close>

definition exactCoord :: "rat \<Rightarrow> bool" where
  "exactCoord v = (onGrid 10 v \<and> \<bar>v\<bar> \<le> 2 ^ 30)"

definition exactValue :: "rat \<Rightarrow> bool" where
  "exactValue v = (onGrid 11 v \<and> \<bar>v\<bar> \<le> 2 ^ 40)"

definition exactCanvas :: "CanvasData \<Rightarrow> bool" where
  "exactCanvas d = (\<forall>n \<in> set (nodes d). exactCoord (node_x n) \<and> exactCoord (node_y n))"

section \<open>Evaluating the model\<close>

lemmas explore_eval =
  getAllNodesAndConnections_def exploreAllConnections.simps
  getForwardLinks_def getBacklinks_def markdownFile_def getAbstractFileByPath_def
  initConnections_def recordForward_def discoverForward_def recordBacklink_def
  discoverBacklink_def connections_add_def set_add_def map_has_def Let_def

lemmas notes_eval = noteA_def noteB_def noteC_def noteD_def

lemmas layers_eval =
  organizeNodesIntoLayers_def Math_max0_def push_at_def placeInLayer_def
  centerEntry_def sortLayer_def array_sort_def

lemmas expand_eval =
  expandCanvas_def nodesToAdd_def newConnections_def findFocusNode_def newNodes_def
  newNode_def newEdge_def newNodePosition_def targetX_def existingNodesAtTargetX_def
  findBestY_def conflictsAt_def centerNode_def DEFAULT_SETTINGS_def
  getForwardLinks_def getBacklinks_def markdownFile_def getAbstractFileByPath_def
  nodeWidth_def nodeHeight_def horizontalSpacing_def verticalSpacing_def
  freshId_def string_of_nat.simps digit_def Let_def upt_rec

section \<open>Exploration\<close>

text \<open>
  A property of the state that each elementary step of the traversal keeps is kept by the
  whole traversal. The steps are given their context: the link lists a file comes from, the
  depth at which a node is found, and that a node is found only when not yet visited.
\<close>

lemma explore_preserves:
  assumes "\<And>p s. P s \<Longrightarrow> P (initConnections p s)"
    and "\<And>f l s. P s \<Longrightarrow> l \<in> set (getForwardLinks app f) \<Longrightarrow> P (recordForward f l s)"
    and "\<And>l d s. P s \<Longrightarrow> path l \<notin> visited s \<Longrightarrow> d0 \<le> d \<Longrightarrow> P (discoverForward l d s)"
    and "\<And>f l s. P s \<Longrightarrow> l \<in> set (getBacklinks app f) \<Longrightarrow> P (recordBacklink f l s)"
    and "\<And>l d s. P s \<Longrightarrow> path l \<notin> visited s \<Longrightarrow> d0 \<le> d \<Longrightarrow> P (discoverBacklink l d s)"
    and "P s" and "d0 \<le> d"
  shows "P (exploreAllConnections app f M d s)"
  using assms
proof (induction app f M d s rule: exploreAllConnections.induct)
  case (1 app f maxDepth currentDepth s)
  note init = "1.prems"(1) and rf = "1.prems"(2) and df = "1.prems"(3)
    and rb = "1.prems"(4) and db = "1.prems"(5)
  show ?case
  proof (cases "currentDepth > maxDepth")
    case True
    then show ?thesis using "1.prems" by (simp add: exploreAllConnections.simps)
  next
    case False
    let ?fw = "\<lambda>linkedFile s1.
                (let s2 = recordForward f linkedFile s1
                 in if path linkedFile \<in> visited s2 then s2
                    else exploreAllConnections app linkedFile maxDepth (currentDepth + 1)
                           (discoverForward linkedFile currentDepth s2))"
    let ?bw = "\<lambda>linkedFile s1.
                (let s2 = recordBacklink f linkedFile s1
                 in if path linkedFile \<in> visited s2 then s2
                    else exploreAllConnections app linkedFile maxDepth (currentDepth + 1)
                           (discoverBacklink linkedFile currentDepth s2))"
    have d': "d0 \<le> currentDepth + 1" using "1.prems"(7) by simp
    have fw: "P (?fw l t)" if l: "l \<in> set (getForwardLinks app f)" and t: "P t" for l t
    proof -
      have r: "P (recordForward f l t)" using rf t l by blast
      show ?thesis
      proof (cases "path l \<in> visited (recordForward f l t)")
        case True
        then show ?thesis using r by simp
      next
        case nv: False
        have "P (discoverForward l currentDepth (recordForward f l t))"
          using df r nv "1.prems"(7) by blast
        then have "P (exploreAllConnections app l maxDepth (currentDepth + 1)
                        (discoverForward l currentDepth (recordForward f l t)))"
          using "1.IH"(1)[OF False l refl nv init rf df rb db _ d'] by blast
        then show ?thesis using nv by simp
      qed
    qed
    have bw: "P (?bw l t)" if l: "l \<in> set (getBacklinks app f)" and t: "P t" for l t
    proof -
      have r: "P (recordBacklink f l t)" using rb t l by blast
      show ?thesis
      proof (cases "path l \<in> visited (recordBacklink f l t)")
        case True
        then show ?thesis using r by simp
      next
        case nv: False
        have "P (discoverBacklink l currentDepth (recordBacklink f l t))"
          using db r nv "1.prems"(7) by blast
        then have "P (exploreAllConnections app l maxDepth (currentDepth + 1)
                        (discoverBacklink l currentDepth (recordBacklink f l t)))"
          using "1.IH"(2)[OF False l refl nv init rf df rb db _ d'] by blast
        then show ?thesis using nv by simp
      qed
    qed
    have s0: "P (initConnections (path f) s)" using init "1.prems"(6) by blast
    have s1: "P (fold ?fw (getForwardLinks app f) (initConnections (path f) s))"
      by (rule fold_invariant[where Q = "\<lambda>l. l \<in> set (getForwardLinks app f)"])
         (use s0 fw in auto)
    have "P (fold ?bw (getBacklinks app f)
               (fold ?fw (getForwardLinks app f) (initConnections (path f) s)))"
      by (rule fold_invariant[where Q = "\<lambda>l. l \<in> set (getBacklinks app f)"])
         (use s1 bw in auto)
    then show ?thesis using False
      by (subst exploreAllConnections.simps) simp
  qed
qed

lemma nodesInv_explore:
  "nodesInv s \<Longrightarrow> nodesInv (exploreAllConnections app f M d s)"
  by (rule explore_preserves[where P = nodesInv and ?d0.0 = 0])
     (auto simp: nodesInv_def initConnections_def recordForward_def discoverForward_def
        recordBacklink_def discoverBacklink_def Let_def)

lemma nodesInv_getAll: "nodesInv (getAllNodesAndConnections app centerFile depth)"
  unfolding getAllNodesAndConnections_def
  by (rule nodesInv_explore) (simp add: nodesInv_def)

text \<open>
  Claim C3. \<open>exploreAllConnections\<close> is a total function: its termination proof above
  holds for every vault, cyclic or not, and every depth, the measure being the depth that
  is left. The node list it returns for any seed and any depth names no document twice.
\<close>

theorem explore_no_duplicates:
  "distinct (map (path \<circ> tfile) (found (getAllNodesAndConnections app centerFile depth)))"
  using nodesInv_getAll[of app centerFile depth] by (simp add: nodesInv_def)

text \<open>On the cyclic vault, explored three levels deep, the traversal returns A and B once each.\<close>

theorem explore_no_duplicates_witness:
  "map (path \<circ> tfile) (found (getAllNodesAndConnections vaultCycle noteA 3)) = [''A.md'', ''B.md'']
   \<and> distinct (map (path \<circ> tfile) (found (getAllNodesAndConnections vaultCycle noteA 3)))"
proof -
  have "map (path \<circ> tfile) (found (getAllNodesAndConnections vaultCycle noteA 3))
        = [''A.md'', ''B.md'']"
    by (simp add: explore_eval vaultCycle_def notes_eval)
  then show ?thesis
    using explore_no_duplicates[of vaultCycle noteA 3] by simp
qed

subsection \<open>Keys of the connection map\<close>

text \<open>
  The two \<^verbatim>\<open>connections.get(k)!\<close> of the source never meet a missing key: the key is put
  into the map right before each loop (forward links) or right before the call (backlinks),
  and no step of the traversal, nested calls included, removes a key.
\<close>

lemma keys_map_set:
  "map fst (map_set m k v) = (if k \<in> set (map fst m) then map fst m else map fst m @ [k])"
  by (induction m) (force simp: image_iff)+

lemma map_has_map_set: "map_has (map_set m k v) k' \<longleftrightarrow> k' = k \<or> map_has m k'"
proof -
  have "map_has (map_set m k v) k' \<longleftrightarrow> k' \<in> set (map fst (map_set m k v))"
    by (simp add: map_has_def)
  also have "\<dots> \<longleftrightarrow> k' = k \<or> k' \<in> set (map fst m)"
    by (auto simp: keys_map_set)
  finally show ?thesis by (simp add: map_has_def)
qed

lemma map_has_connections_add: "map_has (connections_add m k v) k' \<longleftrightarrow> map_has m k'"
proof (cases "map_of m k")
  case None
  then show ?thesis by (simp add: connections_add_def)
next
  case (Some s)
  then have "map_has m k" by (auto simp: map_has_def dest: map_of_SomeD intro: rev_image_eqI)
  then show ?thesis using Some by (auto simp: connections_add_def map_has_map_set)
qed

lemma initConnections_has: "map_has (connections (initConnections p s)) p"
  by (simp add: initConnections_def map_has_map_set)

lemma recordBacklink_has_key:
  "map_of (connections (initConnections (path linkedFile) s)) (path linkedFile) \<noteq> None"
  using initConnections_has[of "path linkedFile" s]
  by (simp add: map_has_def map_of_eq_None_iff)

lemma key_kept_explore:
  "map_has (connections s) k \<Longrightarrow> map_has (connections (exploreAllConnections app f M d s)) k"
  by (rule explore_preserves[where P = "\<lambda>s. map_has (connections s) k" and ?d0.0 = 0])
     (auto simp: initConnections_def recordForward_def discoverForward_def recordBacklink_def
        discoverBacklink_def Let_def map_has_map_set map_has_connections_add)

subsection \<open>Self-loops in the connection map\<close>









section \<open>Layers\<close>

lemma mset_concat_push_at:
  "i < length ls \<Longrightarrow> mset (concat (push_at ls i v)) = add_mset v (mset (concat ls))"
  unfolding push_at_def
proof (induction ls arbitrary: i)
  case Nil
  then show ?case by simp
next
  case (Cons l ls)
  then show ?case by (cases i) auto
qed

lemma length_push_at [simp]: "length (push_at ls i v) = length ls"
  by (simp add: push_at_def)

lemma placeInLayer_mset:
  assumes "isBacklink n \<Longrightarrow> level n < length bl" "\<not> isBacklink n \<Longrightarrow> level n < length fl"
    and "placeInLayer c n (bl, fl) = (bl', fl')"
  shows "length bl' = length bl \<and> length fl' = length fl \<and>
         mset (concat bl') + mset (concat fl') =
         mset (concat bl) + mset (concat fl) + mset (filter (\<lambda>n. path (tfile n) \<noteq> path c) [n])"
  using assms by (auto simp: placeInLayer_def mset_concat_push_at split: if_splits)

text \<open>
  The \<^verbatim>\<open>forEach\<close> loop puts every node whose path is not the centre's into the layer of its
  level, provided the arrays are long enough for the levels of the list.
\<close>

lemma fold_placeInLayer_mset:
  assumes "\<forall>n \<in> set ns. isBacklink n \<longrightarrow> level n < length bl"
    and "\<forall>n \<in> set ns. \<not> isBacklink n \<longrightarrow> level n < length fl"
  shows "mset (concat (fst (fold (placeInLayer c) ns (bl, fl)))) +
         mset (concat (snd (fold (placeInLayer c) ns (bl, fl)))) =
         mset (concat bl) + mset (concat fl) + mset (filter (\<lambda>n. path (tfile n) \<noteq> path c) ns)"
  using assms
proof (induction ns arbitrary: bl fl)
  case Nil
  then show ?case by simp
next
  case (Cons n ns)
  obtain bl' fl' where step: "placeInLayer c n (bl, fl) = (bl', fl')"
    by (cases "placeInLayer c n (bl, fl)") auto
  have one: "length bl' = length bl \<and> length fl' = length fl \<and>
         mset (concat bl') + mset (concat fl') =
         mset (concat bl) + mset (concat fl) + mset (filter (\<lambda>n. path (tfile n) \<noteq> path c) [n])"
    using Cons.prems step by (intro placeInLayer_mset) auto
  have rest: "mset (concat (fst (fold (placeInLayer c) ns (bl', fl')))) +
         mset (concat (snd (fold (placeInLayer c) ns (bl', fl')))) =
         mset (concat bl') + mset (concat fl') + mset (filter (\<lambda>n. path (tfile n) \<noteq> path c) ns)"
    using Cons.prems one by (intro Cons.IH) auto
  show ?case using one rest step by (simp add: ac_simps)
qed

lemma le_Math_max0: "v \<in> set vs \<Longrightarrow> v \<le> Math_max0 vs"
proof -
  assume "v \<in> set vs"
  then have "v \<le> Max (set (0 # vs))" by (intro Max_ge) auto
  then show ?thesis by (simp only: Math_max0_def Max.set_eq_fold)
qed

lemma mset_insert_sorted: "mset (insert_sorted cmp v ws) = add_mset v (mset ws)"
  by (induction ws) auto

lemma mset_array_sort: "mset (array_sort cmp vs) = mset vs"
  by (induction vs) (auto simp: array_sort_def mset_insert_sorted)

lemma mset_concat_sortLayer: "mset (concat (map (sortLayer app) ls)) = mset (concat ls)"
  by (induction ls) (auto simp: sortLayer_def mset_array_sort)

lemma concat_filter_nonempty: "concat (filter (\<lambda>layer. length layer > 0) ls) = concat ls"
  by (induction ls) auto

lemma mset_concat_rev: "mset (concat (rev ls)) = mset (concat ls)"
  by (induction ls) auto

text \<open>
  For any node list, the returned layers hold the nodes of the list whose path is not the
  centre's, each as often as the list does, and the two centre entries that the organizer
  adds itself.
\<close>

lemma mset_organize:
  "mset (concat (organizeNodesIntoLayers app c ns conns)) =
     mset (filter (\<lambda>n. path (tfile n) \<noteq> path c) ns) + {#centerEntry c, centerEntry c#}"
proof -
  define bl where
    "bl = push_at (replicate (Math_max0 (map level (filter isBacklink ns)) + 1) []) 0 (centerEntry c)"
  define fl where
    "fl = push_at (replicate (Math_max0 (map level (filter (\<lambda>n. \<not> isBacklink n) ns)) + 1) [])
            0 (centerEntry c)"
  define filled where "filled = fold (placeInLayer c) ns (bl, fl)"
  have b: "\<forall>n \<in> set ns. isBacklink n \<longrightarrow> level n < length bl"
    using le_Math_max0[of _ "map level (filter isBacklink ns)"]
    by (auto simp: bl_def less_Suc_eq_le)
  have f: "\<forall>n \<in> set ns. \<not> isBacklink n \<longrightarrow> level n < length fl"
    using le_Math_max0[of _ "map level (filter (\<lambda>n. \<not> isBacklink n) ns)"]
    by (auto simp: fl_def less_Suc_eq_le)
  have init: "mset (concat bl) + mset (concat fl) = {#centerEntry c, centerEntry c#}"
    by (simp add: bl_def fl_def mset_concat_push_at)
  have fill: "mset (concat (fst filled)) + mset (concat (snd filled)) =
        mset (concat bl) + mset (concat fl) + mset (filter (\<lambda>n. path (tfile n) \<noteq> path c) ns)"
    unfolding filled_def by (rule fold_placeInLayer_mset[OF b f])
  have org: "organizeNodesIntoLayers app c ns conns =
        filter (\<lambda>layer. length layer > 0) (rev (map (sortLayer app) (fst filled))) @
        filter (\<lambda>layer. length layer > 0) (map (sortLayer app) (snd filled))"
    by (simp add: organizeNodesIntoLayers_def Let_def bl_def fl_def filled_def)
  have "mset (concat (organizeNodesIntoLayers app c ns conns)) =
        mset (concat (fst filled)) + mset (concat (snd filled))"
    by (simp only: org concat_append mset_append concat_filter_nonempty mset_concat_rev
          mset_concat_sortLayer)
  then show ?thesis by (simp only: fill init ac_simps)
qed

lemma layers_holding:
  "count (mset (concat ls)) v = 1 \<Longrightarrow> length (filter (\<lambda>layer. v \<in> set layer) ls) = 1"
proof (induction ls)
  case Nil
  then show ?case by simp
next
  case (Cons l ls)
  have sum: "count (mset l) v + count (mset (concat ls)) v = 1"
    using Cons.prems by simp
  show ?case
  proof (cases "v \<in> set l")
    case True
    then have "count (mset l) v \<noteq> 0" by (simp add: count_eq_zero_iff)
    with sum have "count (mset (concat ls)) v = 0" by linarith
    then have "v \<notin> set (concat ls)" by (simp add: count_eq_zero_iff)
    then have "filter (\<lambda>layer. v \<in> set layer) ls = []" by (auto simp: filter_empty_conv)
    then show ?thesis using True by simp
  next
    case False
    then have "count (mset l) v = 0" by (simp add: count_eq_zero_iff)
    with sum have "count (mset (concat ls)) v = 1" by linarith
    then show ?thesis using Cons.IH False by simp
  qed
qed

lemma explored_AB:
  "getAllNodesAndConnections vaultAB noteA 1 =
     \<lparr>visited = {''B.md'', ''A.md''}, found = [entryA, entryB],
      connections = [(''A.md'', [''B.md'']), (''B.md'', [])]\<rparr>"
  by (simp add: explore_eval vaultAB_def notes_eval entryA_def entryB_def)

lemma layers_AB:
  "organizeNodesIntoLayers vaultAB noteA [entryA, entryB] c = [[entryA], [entryA], [entryB]]"
  by (simp add: layers_eval notes_eval entryA_def entryB_def)

lemma exploredLayers_AB: "exploredLayers vaultAB noteA 1 = [[entryA], [entryA], [entryB]]"
  by (simp only: exploredLayers_def Let_def explored_AB ExploreState.select_convs layers_AB)

text \<open>
  Claim C2, as stated, fails: the organizer pushes the centre entry into level 0 of both
  layer arrays (lines 383-385), and the composition loops run down to and up from level 0,
  so the seed is in the returned layers. For the vault in which A links to B the returned
  layers are \<open>[A], [A], [B]\<close>: the seed, a node of the explored list, is in the first
  and in the second returned layer.
\<close>

theorem organize_seed_counterexample:
  "exploredLayers vaultAB noteA 1 = [[entryA], [entryA], [entryB]] \<and>
   path (tfile entryA) = path noteA \<and>
   entryA \<in> set (found (getAllNodesAndConnections vaultAB noteA 1)) \<and>
   entryA \<in> set (exploredLayers vaultAB noteA 1 ! 0) \<and>
   entryA \<in> set (exploredLayers vaultAB noteA 1 ! 1)"
  unfolding exploredLayers_AB explored_AB by (simp add: entryA_def)

text \<open>
  Claim C2, amended. For every seed and every node list produced by exploration, every
  node of the list other than the seed is in exactly one returned layer, and the seed's
  level-0 entry is not omitted: a returned layer holds the centre entry, which the
  placement looks for.
\<close>

theorem organize_explored:
  "(\<forall>n \<in> set (found (getAllNodesAndConnections app seed depth)).
      path (tfile n) \<noteq> path seed \<longrightarrow>
      length (filter (\<lambda>layer. n \<in> set layer) (exploredLayers app seed depth)) = 1) \<and>
   (\<exists>layer \<in> set (exploredLayers app seed depth). centerEntry seed \<in> set layer)"
proof (intro conjI ballI impI)
  let ?E = "getAllNodesAndConnections app seed depth"
  have m: "mset (concat (exploredLayers app seed depth)) =
        mset (filter (\<lambda>n. path (tfile n) \<noteq> path seed) (found ?E)) +
        {#centerEntry seed, centerEntry seed#}"
    by (simp add: exploredLayers_def Let_def mset_organize)
  have "centerEntry seed \<in> set (concat (exploredLayers app seed depth))"
  proof -
    have "centerEntry seed \<in># mset (concat (exploredLayers app seed depth))"
      by (simp only: m) simp
    then show ?thesis by simp
  qed
  then show "\<exists>layer \<in> set (exploredLayers app seed depth). centerEntry seed \<in> set layer"
    by auto
  fix n assume n: "n \<in> set (found ?E)" and ns: "path (tfile n) \<noteq> path seed"
  have "distinct (map (path \<circ> tfile) (found ?E))"
    using nodesInv_getAll[of app seed depth] by (simp add: nodesInv_def)
  then have "distinct (found ?E)" by (simp add: distinct_map)
  then have "count (mset (found ?E)) n = 1" using n by (simp add: distinct_count_atmost_1)
  moreover have "n \<noteq> centerEntry seed" using ns by (auto simp: centerEntry_def)
  ultimately have "count (mset (concat (exploredLayers app seed depth))) n = 1"
    using ns by (simp add: m)
  then show "length (filter (\<lambda>layer. n \<in> set layer) (exploredLayers app seed depth)) = 1"
    by (rule layers_holding)
qed

theorem organize_explored_witness:
  "entryB \<in> set (found (getAllNodesAndConnections vaultAB noteA 1)) \<and>
   path (tfile entryB) \<noteq> path noteA \<and>
   length (filter (\<lambda>layer. entryB \<in> set layer) (exploredLayers vaultAB noteA 1)) = 1 \<and>
   (\<exists>layer \<in> set (exploredLayers vaultAB noteA 1). centerEntry noteA \<in> set layer)"
proof -
  have b: "entryB \<in> set (found (getAllNodesAndConnections vaultAB noteA 1))"
    unfolding explored_AB by simp
  have p: "path (tfile entryB) \<noteq> path noteA"
    by (simp add: entryB_def notes_eval)
  show ?thesis using organize_explored[of vaultAB noteA 1] b p by blast
qed

section \<open>The from-scratch build\<close>

lemma string_of_nat_0: "string_of_nat 0 = ''0''"
  by (simp add: string_of_nat.simps digit_def)

lemma string_of_nat_1: "string_of_nat 1 = ''1''"
  by (simp add: string_of_nat.simps digit_def)

lemma placed_AB:
  "placed (placeLayers (DEFAULT_SETTINGS\<lparr>canvasWidth := w, canvasHeight := h\<rparr>) noteA
     [[entryA], [entryA], [entryB]]) =
     [\<lparr>node_id = ''center-node'', node_type = ''file'', node_file = ''A.md'',
       node_x = w / 2, node_y = h / 2, node_width = 300, node_height = 200\<rparr>,
      \<lparr>node_id = ''node-0'', node_type = ''file'', node_file = ''B.md'',
       node_x = w / 2 + 2 * horizontalSpacing, node_y = h / 2,
       node_width = 300, node_height = 200\<rparr>]"
  by (simp add: DEFAULT_SETTINGS_def placeLayers_def placeLayer_def placeNode_def
        centerNode_def nodeWidth_def nodeHeight_def horizontalSpacing_def verticalSpacing_def
        enumerate_eq_zip string_of_nat_0 notes_eval entryA_def entryB_def upt_rec Let_def)

text \<open>
  Claim C1, evaluated. Seed A whose only link is a forward link to B, explored one level
  deep, on a canvas of width \<open>w\<close> and height \<open>h\<close>: A is placed at the centre
  \<open>(w/2, h/2)\<close>, and B at \<open>(w/2 + 2 * horizontalSpacing, h/2)\<close>, two spacings to the right
  of the centre and not one. The layers are \<open>[A], [A], [B]\<close>; \<^verbatim>\<open>findIndex\<close> takes the first
  \<open>[A]\<close> as the centre layer, so the layer of B has offset 2.
\<close>

theorem build_forward_link_position:
  "nodes (createCanvasContent vaultAB (DEFAULT_SETTINGS\<lparr>canvasWidth := w, canvasHeight := h\<rparr>)
            createdAt modifiedAt noteA) =
     [\<lparr>node_id = ''center-node'', node_type = ''file'', node_file = ''A.md'',
       node_x = w / 2, node_y = h / 2, node_width = 300, node_height = 200\<rparr>,
      \<lparr>node_id = ''node-0'', node_type = ''file'', node_file = ''B.md'',
       node_x = w / 2 + 2 * horizontalSpacing, node_y = h / 2,
       node_width = 300, node_height = 200\<rparr>]"
proof -
  have d: "linkDepth (DEFAULT_SETTINGS\<lparr>canvasWidth := w, canvasHeight := h\<rparr>) = 1"
    by (simp add: DEFAULT_SETTINGS_def)
  show ?thesis
    by (simp only: createCanvasContent_def Let_def d explored_AB ExploreState.select_convs
          layers_AB placed_AB CanvasData.select_convs)
qed

text \<open>
  The sibling path: a backlink of the seed is placed one spacing to the left of the
  centre. In the vault in which C links to A the layers are \<open>[C], [A], [A]\<close>.
\<close>

lemma build_backlink_position:
  "nodes (createCanvasContent vaultCA (DEFAULT_SETTINGS\<lparr>canvasWidth := w, canvasHeight := h\<rparr>)
            createdAt modifiedAt noteA) =
     [\<lparr>node_id = ''center-node'', node_type = ''file'', node_file = ''A.md'',
       node_x = w / 2, node_y = h / 2, node_width = 300, node_height = 200\<rparr>,
      \<lparr>node_id = ''node-0'', node_type = ''file'', node_file = ''C.md'',
       node_x = w / 2 - horizontalSpacing, node_y = h / 2,
       node_width = 300, node_height = 200\<rparr>]"
proof -
  have d: "linkDepth (DEFAULT_SETTINGS\<lparr>canvasWidth := w, canvasHeight := h\<rparr>) = 1"
    by (simp add: DEFAULT_SETTINGS_def)
  have e: "getAllNodesAndConnections vaultCA noteA 1 =
     \<lparr>visited = {''C.md'', ''A.md''},
      found = [entryA, \<lparr>tfile = noteC, level = 1, isBacklink = True\<rparr>],
      connections = [(''A.md'', []), (''C.md'', [''A.md''])]\<rparr>"
    by (simp add: explore_eval vaultCA_def notes_eval entryA_def)
  have l: "organizeNodesIntoLayers vaultCA noteA
             [entryA, \<lparr>tfile = noteC, level = 1, isBacklink = True\<rparr>] c =
           [[\<lparr>tfile = noteC, level = 1, isBacklink = True\<rparr>], [entryA], [entryA]]" for c
    by (simp add: layers_eval notes_eval entryA_def)
  have p: "placed (placeLayers (DEFAULT_SETTINGS\<lparr>canvasWidth := w, canvasHeight := h\<rparr>) noteA
             [[\<lparr>tfile = noteC, level = 1, isBacklink = True\<rparr>], [entryA], [entryA]]) =
     [\<lparr>node_id = ''center-node'', node_type = ''file'', node_file = ''A.md'',
       node_x = w / 2, node_y = h / 2, node_width = 300, node_height = 200\<rparr>,
      \<lparr>node_id = ''node-0'', node_type = ''file'', node_file = ''C.md'',
       node_x = w / 2 - horizontalSpacing, node_y = h / 2,
       node_width = 300, node_height = 200\<rparr>]"
    by (simp add: DEFAULT_SETTINGS_def placeLayers_def placeLayer_def placeNode_def
          centerNode_def nodeWidth_def nodeHeight_def horizontalSpacing_def verticalSpacing_def
          enumerate_eq_zip string_of_nat_0 notes_eval entryA_def upt_rec Let_def)
  show ?thesis
    by (simp only: createCanvasContent_def Let_def d e ExploreState.select_convs
          l p CanvasData.select_convs)
qed

subsection \<open>Edges\<close>

lemma idsPlaced_placeNode: "idsPlaced st \<Longrightarrow> idsPlaced (placeNode a lx ly e st)"
  unfolding idsPlaced_def placeNode_def Let_def
  by (cases e) (auto split: if_splits)

lemma idsPlaced_placeLayer: "idsPlaced st \<Longrightarrow> idsPlaced (placeLayer settings a ci e st)"
  unfolding placeLayer_def Let_def
  by (cases e) (auto intro!: fold_invariant[where Q = "\<lambda>_. True"] idsPlaced_placeNode)

lemma idsPlaced_placeLayers: "idsPlaced (placeLayers settings a layers)"
  unfolding placeLayers_def Let_def
proof (rule fold_invariant[where Q = "\<lambda>_. True" and P = idsPlaced])
  show "idsPlaced \<lparr>nodeIndex = 0, placed = [centerNode settings a],
                   fileToNodeId = [path a \<mapsto> ''center-node'']\<rparr>"
    by (simp add: idsPlaced_def centerNode_def)
qed (simp_all add: idsPlaced_placeLayer)

lemma edgesFrom_addEdge:
  assumes "edgesFrom ids conns st" "(fromPath, toPaths) \<in> set conns" "toPath \<in> set toPaths"
    "ids fromPath = Some fromNodeId"
  shows "edgesFrom ids conns (addEdge ids fromNodeId toPath st)"
  using assms unfolding edgesFrom_def addEdge_def
  by (auto split: option.splits)

lemma edgesFrom_addEdgesFrom:
  assumes "edgesFrom ids conns st" "e \<in> set conns"
  shows "edgesFrom ids conns (addEdgesFrom ids e st)"
proof (cases e)
  case (Pair fromPath toPaths)
  show ?thesis
  proof (cases "ids fromPath")
    case None
    then show ?thesis using assms(1) Pair by (simp add: addEdgesFrom_def)
  next
    case (Some fromNodeId)
    have "edgesFrom ids conns (fold (addEdge ids fromNodeId) toPaths st)"
      by (rule fold_invariant[where Q = "\<lambda>t. t \<in> set toPaths"])
         (use assms Pair Some in \<open>auto intro: edgesFrom_addEdge\<close>)
    then show ?thesis using assms(1) Pair Some by (simp add: addEdgesFrom_def)
  qed
qed

lemma edgesFrom_createEdges:
  "edgesFrom ids conns (fold (addEdgesFrom ids) conns \<lparr>edgeIndex = 0, emitted = []\<rparr>)"
proof (rule fold_invariant[where Q = "\<lambda>e. e \<in> set conns" and P = "edgesFrom ids conns"])
  show "edgesFrom ids conns \<lparr>edgeIndex = 0, emitted = []\<rparr>"
    by (simp add: edgesFrom_def)
qed (simp_all add: edgesFrom_addEdgesFrom)

text \<open>
  Claim C10. Every edge of the built canvas stands for a recorded connection whose source
  and target both have a placed node, the edge's two node ids being those nodes' ids, and
  the two ids differ: no edge is a self-loop, and a connection with an endpoint that was
  not placed, source or target, yields no edge. Every edge runs from a right side to a
  left side.
\<close>

theorem build_edges_between_placed_nodes:
  "\<forall>e \<in> set (edges (createCanvasContent app settings createdAt modifiedAt activeFile)).
     fromNode e \<noteq> toNode e \<and> fromSide e = ''right'' \<and> toSide e = ''left'' \<and>
     edgeOf (connections (getAllNodesAndConnections app activeFile (linkDepth settings)))
       (nodes (createCanvasContent app settings createdAt modifiedAt activeFile)) e"
proof
  fix e
  let ?E = "getAllNodesAndConnections app activeFile (linkDepth settings)"
  let ?st = "placeLayers settings activeFile
               (organizeNodesIntoLayers app activeFile (found ?E) (connections ?E))"
  assume "e \<in> set (edges (createCanvasContent app settings createdAt modifiedAt activeFile))"
  then have e: "e \<in> set (createEdges (fileToNodeId ?st) (connections ?E))"
    by (simp add: createCanvasContent_def Let_def)
  have n: "nodes (createCanvasContent app settings createdAt modifiedAt activeFile) = placed ?st"
    by (simp add: createCanvasContent_def Let_def)
  from e edgesFrom_createEdges[of "fileToNodeId ?st" "connections ?E"]
  have ok: "fromNode e \<noteq> toNode e \<and> fromSide e = ''right'' \<and> toSide e = ''left'' \<and>
        (\<exists>(fromPath, toPaths) \<in> set (connections ?E). \<exists>toPath \<in> set toPaths.
           fileToNodeId ?st fromPath = Some (fromNode e) \<and>
           fileToNodeId ?st toPath = Some (toNode e))"
    unfolding edgesFrom_def createEdges_def by blast
  then obtain fromPath toPaths toPath where c: "(fromPath, toPaths) \<in> set (connections ?E)"
    "toPath \<in> set toPaths" "fileToNodeId ?st fromPath = Some (fromNode e)"
    "fileToNodeId ?st toPath = Some (toNode e)" by blast
  have ip: "idsPlaced ?st" by (rule idsPlaced_placeLayers)
  obtain nf where nf: "nf \<in> set (placed ?st)" "node_file nf = fromPath" "node_id nf = fromNode e"
    using ip c(3) unfolding idsPlaced_def by blast
  obtain nt where nt: "nt \<in> set (placed ?st)" "node_file nt = toPath" "node_id nt = toNode e"
    using ip c(4) unfolding idsPlaced_def by blast
  have "edgeOf (connections ?E) (placed ?st) e"
    unfolding edgeOf_def using c(1,2) nf nt by blast
  then show "fromNode e \<noteq> toNode e \<and> fromSide e = ''right'' \<and> toSide e = ''left'' \<and>
     edgeOf (connections ?E)
       (nodes (createCanvasContent app settings createdAt modifiedAt activeFile)) e"
    using ok n by simp
qed

lemma edges_AB:
  "edges (createCanvasContent vaultAB DEFAULT_SETTINGS ''t0'' ''t0'' noteA) =
     [\<lparr>edge_id = ''edge-0'', fromNode = ''center-node'', fromSide = ''right'',
       toNode = ''node-0'', toSide = ''left''\<rparr>]"
proof -
  have d: "linkDepth DEFAULT_SETTINGS = 1"
    by (simp add: DEFAULT_SETTINGS_def)
  have i: "fileToNodeId (placeLayers DEFAULT_SETTINGS noteA [[entryA], [entryA], [entryB]]) =
           [''A.md'' \<mapsto> ''center-node'', ''B.md'' \<mapsto> ''node-0'']"
    by (simp add: DEFAULT_SETTINGS_def placeLayers_def placeLayer_def placeNode_def
          enumerate_eq_zip string_of_nat_0 notes_eval entryA_def entryB_def upt_rec Let_def)
  have c: "createEdges [''A.md'' \<mapsto> ''center-node'', ''B.md'' \<mapsto> ''node-0'']
             [(''A.md'', [''B.md'']), (''B.md'', [])] =
           [\<lparr>edge_id = ''edge-0'', fromNode = ''center-node'', fromSide = ''right'',
             toNode = ''node-0'', toSide = ''left''\<rparr>]"
    by (simp add: createEdges_def addEdgesFrom_def addEdge_def truthy_def string_of_nat_0)
  show ?thesis
    by (simp only: createCanvasContent_def Let_def d explored_AB ExploreState.select_convs
          layers_AB i c CanvasData.select_convs)
qed

text \<open>
  The build of the vault in which A links to B has the one edge from A's node to B's node;
  the build of the vault whose note links to itself records the self-loop as a connection
  and emits no edge.
\<close>

theorem build_edges_between_placed_nodes_witness:
  "edges (createCanvasContent vaultAB DEFAULT_SETTINGS ''t0'' ''t0'' noteA) =
     [\<lparr>edge_id = ''edge-0'', fromNode = ''center-node'', fromSide = ''right'',
       toNode = ''node-0'', toSide = ''left''\<rparr>] \<and>
   edgeOf (connections (getAllNodesAndConnections vaultAB noteA (linkDepth DEFAULT_SETTINGS)))
     (nodes (createCanvasContent vaultAB DEFAULT_SETTINGS ''t0'' ''t0'' noteA))
     \<lparr>edge_id = ''edge-0'', fromNode = ''center-node'', fromSide = ''right'',
      toNode = ''node-0'', toSide = ''left''\<rparr>"
  using build_edges_between_placed_nodes[of vaultAB DEFAULT_SETTINGS "''t0''" "''t0''" noteA]
  by (simp add: edges_AB)

lemma build_self_link_no_edge:
  "connections (getAllNodesAndConnections vaultSelf noteA 1) = [(''A.md'', [''A.md''])] \<and>
   edges (createCanvasContent vaultSelf DEFAULT_SETTINGS ''t0'' ''t0'' noteA) = []"
proof -
  have d: "linkDepth DEFAULT_SETTINGS = 1"
    by (simp add: DEFAULT_SETTINGS_def)
  have e: "getAllNodesAndConnections vaultSelf noteA 1 =
     \<lparr>visited = {''A.md''}, found = [entryA], connections = [(''A.md'', [''A.md''])]\<rparr>"
    by (simp add: explore_eval vaultSelf_def notes_eval entryA_def)
  have l: "organizeNodesIntoLayers vaultSelf noteA [entryA] c = [[entryA], [entryA]]" for c
    by (simp add: layers_eval notes_eval entryA_def)
  have i: "fileToNodeId (placeLayers DEFAULT_SETTINGS noteA [[entryA], [entryA]]) =
           [''A.md'' \<mapsto> ''center-node'']"
    by (simp add: DEFAULT_SETTINGS_def placeLayers_def placeLayer_def placeNode_def
          enumerate_eq_zip notes_eval entryA_def upt_rec Let_def)
  have c: "createEdges [''A.md'' \<mapsto> ''center-node''] [(''A.md'', [''A.md''])] = []"
    by (simp add: createEdges_def addEdgesFrom_def addEdge_def truthy_def)
  have "edges (createCanvasContent vaultSelf DEFAULT_SETTINGS ''t0'' ''t0'' noteA) = []"
    by (simp only: createCanvasContent_def Let_def d e ExploreState.select_convs
          l i c CanvasData.select_convs)
  moreover have "connections (getAllNodesAndConnections vaultSelf noteA 1) =
                 [(''A.md'', [''A.md''])]"
    unfolding e by simp
  ultimately show ?thesis by (intro conjI)
qed

section \<open>Growing a canvas\<close>

lemma length_newNodes [simp]: "length (newNodes fn d fnode dir toAdd) = length toAdd"
  by (simp add: newNodes_def)

lemma newNodes_eq_Nil [simp]: "newNodes fn d fnode dir toAdd = [] \<longleftrightarrow> toAdd = []"
  by (simp add: newNodes_def)

lemma node_file_newNodes: "map node_file (newNodes fn d fnode dir toAdd) = map path toAdd"
proof -
  have "map node_file (newNodes fn d fnode dir toAdd) =
        map (\<lambda>i. path (toAdd ! i)) [0..<length toAdd]"
    by (simp add: newNodes_def newNode_def)
  also have "\<dots> = map path (map ((!) toAdd) [0..<length toAdd])" by simp
  also have "\<dots> = map path toAdd" by (simp only: map_nth)
  finally show ?thesis .
qed

subsection \<open>The paths of \<open>expandCanvas\<close>\<close>

lemma expandCanvas_None [simp]: "expandCanvas app fn fe now None focus dir = None"
  by (simp add: expandCanvas_def)

lemma expandCanvas_nothing:
  "nodesToAdd app d focus dir = [] \<Longrightarrow> expandCanvas app fn fe now (Some d) focus dir = Some d"
  by (simp add: expandCanvas_def)

lemma expandCanvas_no_focus:
  "findFocusNode d focus = None \<Longrightarrow> expandCanvas app fn fe now (Some d) focus dir = Some d"
  by (simp add: expandCanvas_def Let_def)

lemma expandCanvas_adds:
  "nodesToAdd app d focus dir \<noteq> [] \<Longrightarrow> findFocusNode d focus = Some fnode \<Longrightarrow>
   expandCanvas app fn fe now (Some d) focus dir = Some (expanded app fn fe now d focus dir fnode)"
  by (simp add: expandCanvas_def Let_def expanded_def)

text \<open>After the last path, every link of the focus note is a node of the canvas.\<close>

lemma nodesToAdd_expanded:
  "nodesToAdd app (expanded app fn fe now d focus dir fnode) focus dir = []"
proof -
  have "path l \<in> set (map node_file (nodes (expanded app fn fe now d focus dir fnode)))"
    if "l \<in> set (newConnections app focus dir)" for l
  proof (cases "path l \<in> set (map node_file (nodes d))")
    case True
    then show ?thesis by (auto simp: expanded_def)
  next
    case False
    then have "l \<in> set (nodesToAdd app d focus dir)"
      using that by (simp add: nodesToAdd_def Let_def)
    then have "path l \<in> set (map path (nodesToAdd app d focus dir))" by simp
    then show ?thesis by (simp add: expanded_def node_file_newNodes)
  qed
  then show ?thesis
    by (simp add: nodesToAdd_def[of app "expanded app fn fe now d focus dir fnode"] Let_def
          filter_empty_conv)
qed

subsection \<open>The examples\<close>

lemma expand_A_right:
  "expandCanvas vaultAB (freshId ''node-1-'') (freshId ''edge-1-'') ''t1'' (Some canvasA)
     noteA Right = Some canvasAB"
  by (simp add: expand_eval canvasA_def canvasAB_def nodeB_def edgeAB_def vaultAB_def notes_eval)

lemma expand_AB_right:
  "expandCanvas vaultABCD (freshId ''node-2-'') (freshId ''edge-2-'') ''t2'' (Some canvasAB)
     noteA Right = Some canvasABCD"
  by (simp add: expand_eval canvasAB_def canvasABCD_def nodeB_def nodeC_def nodeD_def
        edgeAB_def edgeAC_def edgeAD_def vaultABCD_def notes_eval)

lemma expand_A_left:
  "expandCanvas vaultCycle (freshId ''node-1-'') (freshId ''edge-1-'') ''t1'' (Some canvasA)
     noteA Left = Some canvasBA"
  by (simp add: expand_eval canvasA_def canvasBA_def nodeBleft_def edgeBA_def vaultCycle_def
        notes_eval)

lemma focus_canvasA: "findFocusNode canvasA noteA = Some (centerNode DEFAULT_SETTINGS noteA)"
  by (simp add: findFocusNode_def canvasA_def centerNode_def notes_eval)

lemma focus_canvasAB: "findFocusNode canvasAB noteA = Some (centerNode DEFAULT_SETTINGS noteA)"
  by (simp add: findFocusNode_def canvasAB_def centerNode_def notes_eval)

subsection \<open>Re-running an expansion\<close>

text \<open>
  Claim C6. A second call with the same link index, focus note and direction returns the
  canvas the first call left, whatever ids and time the second call would use: every link
  of the focus note is a node by then, so the filter leaves nothing to add.
\<close>

theorem expand_twice:
  "expandCanvas app fn2 fe2 now2 (expandCanvas app fn1 fe1 now1 content focus dir) focus dir =
   expandCanvas app fn1 fe1 now1 content focus dir"
proof (cases content)
  case None
  then show ?thesis by simp
next
  case (Some d)
  show ?thesis
  proof (cases "nodesToAdd app d focus dir = []")
    case True
    then show ?thesis using Some by (simp add: expandCanvas_nothing)
  next
    case toAdd: False
    show ?thesis
    proof (cases "findFocusNode d focus")
      case None
      then show ?thesis using Some by (simp add: expandCanvas_no_focus)
    next
      case (Some fnode)
      then show ?thesis using \<open>content = Some d\<close> toAdd
        by (simp add: expandCanvas_adds expandCanvas_nothing nodesToAdd_expanded)
    qed
  qed
qed

text \<open>The first call adds B to the canvas that holds A; the second call changes nothing.\<close>

theorem expand_twice_witness:
  "expandCanvas vaultAB (freshId ''node-1-'') (freshId ''edge-1-'') ''t1'' (Some canvasA)
     noteA Right = Some canvasAB \<and>
   nodes canvasAB \<noteq> nodes canvasA \<and>
   expandCanvas vaultAB (freshId ''node-2-'') (freshId ''edge-2-'') ''t2'' (Some canvasAB)
     noteA Right = Some canvasAB"
proof -
  have "nodes canvasAB \<noteq> nodes canvasA" by (simp add: canvasAB_def canvasA_def)
  then show ?thesis
    using expand_twice[of vaultAB "freshId ''node-2-''" "freshId ''edge-2-''" "''t2''"
        "freshId ''node-1-''" "freshId ''edge-1-''" "''t1''" "Some canvasA" noteA Right]
    by (simp add: expand_A_right)
qed

subsection \<open>The paths that write nothing\<close>

text \<open>
  Claim C7. When the content of the canvas file does not parse, or no link of the focus
  note is left after the filter, or the canvas has no node for the focus note, the call
  leaves the content of the file as it was.
\<close>

theorem expand_aborts:
  "content = None \<or>
   (\<exists>d. content = Some d \<and> (nodesToAdd app d focus dir = [] \<or> findFocusNode d focus = None))
   \<Longrightarrow> expandCanvas app fn fe now content focus dir = content"
  by (auto simp: expandCanvas_nothing expandCanvas_no_focus)

text \<open>
  One instance for each path: a file that does not parse; the canvas of A and B, of which
  A has no further link in \<open>vaultAB\<close>; the canvas of A alone with the focus on B, which has
  the link to C to add in \<open>vaultChain\<close> and no node.
\<close>

theorem expand_aborts_witness:
  "expandCanvas vaultAB (freshId ''node-1-'') (freshId ''edge-1-'') ''t1'' None noteA Right = None \<and>
   nodesToAdd vaultAB canvasAB noteA Right = [] \<and>
   expandCanvas vaultAB (freshId ''node-1-'') (freshId ''edge-1-'') ''t1'' (Some canvasAB)
     noteA Right = Some canvasAB \<and>
   nodesToAdd vaultChain canvasA noteB Right = [noteC] \<and>
   findFocusNode canvasA noteB = None \<and>
   expandCanvas vaultChain (freshId ''node-1-'') (freshId ''edge-1-'') ''t1'' (Some canvasA)
     noteB Right = Some canvasA"
proof -
  have n: "nodesToAdd vaultAB canvasAB noteA Right = []"
    by (simp add: nodesToAdd_def newConnections_def getForwardLinks_def markdownFile_def
          getAbstractFileByPath_def vaultAB_def canvasAB_def nodeB_def centerNode_def
          notes_eval Let_def)
  have c: "nodesToAdd vaultChain canvasA noteB Right = [noteC]"
    by (simp add: nodesToAdd_def newConnections_def getForwardLinks_def markdownFile_def
          getAbstractFileByPath_def vaultChain_def canvasA_def centerNode_def
          notes_eval Let_def)
  have f: "findFocusNode canvasA noteB = None"
    by (simp add: findFocusNode_def canvasA_def centerNode_def notes_eval)
  show ?thesis
    using
      expand_aborts[of None vaultAB noteA Right "freshId ''node-1-''" "freshId ''edge-1-''" "''t1''"]
      expand_aborts[of "Some canvasAB" vaultAB noteA Right "freshId ''node-1-''"
        "freshId ''edge-1-''" "''t1''"]
      expand_aborts[of "Some canvasA" vaultChain noteB Right "freshId ''node-1-''"
        "freshId ''edge-1-''" "''t1''"]
      n c f
    by simp
qed

subsection \<open>What an expansion adds\<close>

text \<open>
  Claim C9. A call that returns a canvas returns the canvas it read with nodes appended
  to its nodes, edges appended to its edges and \<^verbatim>\<open>meta.modified\<close> set; every other field,
  and every node and edge that was there, is as before.
\<close>

theorem expand_appends:
  "expandCanvas app fn fe now (Some d) focus dir = Some d' \<Longrightarrow>
   \<exists>ns es m. d' = d\<lparr>nodes := nodes d @ ns, edges := edges d @ es,
                    meta := (meta d)\<lparr>modified := m\<rparr>\<rparr>"
proof (cases "nodesToAdd app d focus dir = [] \<or> findFocusNode d focus = None")
  case True
  assume "expandCanvas app fn fe now (Some d) focus dir = Some d'"
  then have "d' = d" using True by (auto simp: expandCanvas_nothing expandCanvas_no_focus)
  then have "d' = d\<lparr>nodes := nodes d @ [], edges := edges d @ [],
                    meta := (meta d)\<lparr>modified := modified (meta d)\<rparr>\<rparr>" by simp
  then show ?thesis by blast
next
  case False
  assume r: "expandCanvas app fn fe now (Some d) focus dir = Some d'"
  from False obtain fnode where "findFocusNode d focus = Some fnode" by auto
  then have "d' = expanded app fn fe now d focus dir fnode"
    using False r by (simp add: expandCanvas_adds)
  then show ?thesis unfolding expanded_def by blast
qed

theorem expand_appends_witness:
  "expandCanvas vaultABCD (freshId ''node-2-'') (freshId ''edge-2-'') ''t2'' (Some canvasAB)
     noteA Right = Some canvasABCD \<and>
   canvasABCD = canvasAB\<lparr>nodes := nodes canvasAB @ [nodeC, nodeD],
                          edges := edges canvasAB @ [edgeAC, edgeAD],
                          meta := (meta canvasAB)\<lparr>modified := ''t2''\<rparr>\<rparr> \<and>
   (\<exists>ns es m. canvasABCD = canvasAB\<lparr>nodes := nodes canvasAB @ ns, edges := edges canvasAB @ es,
                                     meta := (meta canvasAB)\<lparr>modified := m\<rparr>\<rparr>)"
proof -
  have "canvasABCD = canvasAB\<lparr>nodes := nodes canvasAB @ [nodeC, nodeD],
                          edges := edges canvasAB @ [edgeAC, edgeAD],
                          meta := (meta canvasAB)\<lparr>modified := ''t2''\<rparr>\<rparr>"
    by (simp add: canvasABCD_def canvasAB_def)
  then show ?thesis using expand_appends[OF expand_AB_right] expand_AB_right by blast
qed

text \<open>
  Claim C8. The edges that a call appends are as many as the nodes it appends, and the
  \<open>i\<close>-th of them joins the focus node and the \<open>i\<close>-th new node: from the new node to the
  focus node for \<open>Left\<close>, from the focus node to the new node for \<open>Right\<close>, always from a
  right side to a left side.
\<close>

theorem expand_edges:
  "expandCanvas app fn fe now (Some d) focus dir = Some d' \<Longrightarrow>
   length (drop (length (edges d)) (edges d')) = length (drop (length (nodes d)) (nodes d')) \<and>
   (\<forall>i < length (drop (length (nodes d)) (nodes d')).
      \<exists>fnode. findFocusNode d focus = Some fnode \<and>
        drop (length (edges d)) (edges d') ! i =
          \<lparr>edge_id = fe i,
           fromNode = (if dir = Left then node_id (drop (length (nodes d)) (nodes d') ! i)
                       else node_id fnode),
           fromSide = ''right'',
           toNode = (if dir = Left then node_id fnode
                     else node_id (drop (length (nodes d)) (nodes d') ! i)),
           toSide = ''left''\<rparr>)"
proof (cases "nodesToAdd app d focus dir = [] \<or> findFocusNode d focus = None")
  case True
  assume "expandCanvas app fn fe now (Some d) focus dir = Some d'"
  then have "d' = d" using True by (auto simp: expandCanvas_nothing expandCanvas_no_focus)
  then show ?thesis by simp
next
  case False
  assume r: "expandCanvas app fn fe now (Some d) focus dir = Some d'"
  from False obtain fnode where f: "findFocusNode d focus = Some fnode" by auto
  then have "d' = expanded app fn fe now d focus dir fnode"
    using False r by (simp add: expandCanvas_adds)
  then show ?thesis using f by (simp add: expanded_def newEdge_def)
qed

text \<open>
  To the right of A two nodes and the two edges from A to them are added; to the left of A
  one node and the edge from it to A.
\<close>

theorem expand_edges_witness:
  "expandCanvas vaultABCD (freshId ''node-2-'') (freshId ''edge-2-'') ''t2'' (Some canvasAB)
     noteA Right = Some canvasABCD \<and>
   drop (length (nodes canvasAB)) (nodes canvasABCD) = [nodeC, nodeD] \<and>
   drop (length (edges canvasAB)) (edges canvasABCD) = [edgeAC, edgeAD] \<and>
   fromNode edgeAD = node_id (centerNode DEFAULT_SETTINGS noteA) \<and>
   toNode edgeAD = node_id nodeD \<and>
   expandCanvas vaultCycle (freshId ''node-1-'') (freshId ''edge-1-'') ''t1'' (Some canvasA)
     noteA Left = Some canvasBA \<and>
   drop (length (nodes canvasA)) (nodes canvasBA) = [nodeBleft] \<and>
   drop (length (edges canvasA)) (edges canvasBA) = [edgeBA] \<and>
   fromNode edgeBA = node_id nodeBleft \<and>
   toNode edgeBA = node_id (centerNode DEFAULT_SETTINGS noteA)"
proof -
  have r: "drop (length (nodes canvasAB)) (nodes canvasABCD) = [nodeC, nodeD]"
    "drop (length (edges canvasAB)) (edges canvasABCD) = [edgeAC, edgeAD]"
    by (simp_all add: canvasAB_def canvasABCD_def)
  have l: "drop (length (nodes canvasA)) (nodes canvasBA) = [nodeBleft]"
    "drop (length (edges canvasA)) (edges canvasBA) = [edgeBA]"
    by (simp_all add: canvasA_def canvasBA_def)
  have ad: "edgeAD =
        \<lparr>edge_id = freshId ''edge-2-'' 1,
         fromNode = node_id (centerNode DEFAULT_SETTINGS noteA), fromSide = ''right'',
         toNode = node_id nodeD, toSide = ''left''\<rparr>"
    using expand_edges[OF expand_AB_right] focus_canvasAB
    by (simp add: r All_less_Suc numeral_2_eq_2)
  have "fromNode edgeAD = node_id (centerNode DEFAULT_SETTINGS noteA) \<and>
        toNode edgeAD = node_id nodeD"
    by (subst (1 2) ad) simp
  moreover have ba: "edgeBA =
        \<lparr>edge_id = freshId ''edge-1-'' 0,
         fromNode = node_id nodeBleft, fromSide = ''right'',
         toNode = node_id (centerNode DEFAULT_SETTINGS noteA), toSide = ''left''\<rparr>"
    using expand_edges[OF expand_A_left] focus_canvasA
    by (simp add: l)
  have "fromNode edgeBA = node_id nodeBleft \<and>
        toNode edgeBA = node_id (centerNode DEFAULT_SETTINGS noteA)"
    by (subst (1 2) ba) simp
  ultimately show ?thesis using r l expand_AB_right expand_A_left by blast
qed

subsection \<open>Vertical conflicts\<close>

lemma conflictsAt_empty_iff:
  "conflictsAt ex y = [] \<longleftrightarrow> (\<forall>e \<in> set ex. 220 \<le> \<bar>y - node_y e\<bar>)"
  by (auto simp: conflictsAt_def filter_empty_conv nodeHeight_def Let_def abs_if)

lemma conflictsAt_column: "conflictsAt ex y \<noteq> [] \<Longrightarrow> ex \<noteq> []"
  by (auto simp: conflictsAt_def)

text \<open>The middle of a gap is at least 480 away from every position of the sorted list.\<close>

lemma findGap_clear:
  "sorted l \<Longrightarrow> findGap l = Some g \<Longrightarrow>
   hd l + 480 \<le> g \<and> (\<forall>y \<in> set l. y + 480 \<le> g \<or> g \<le> y - 480)"
proof (induction l rule: findGap.induct)
  case (1 a b ys)
  show ?case
  proof (cases "nodeHeight \<le> (b - nodeHeight / 2 - verticalSpacing) -
                              (a + nodeHeight / 2 + verticalSpacing)")
    case True
    then have g: "g = (a + nodeHeight / 2 + verticalSpacing) +
                   ((b - nodeHeight / 2 - verticalSpacing) -
                    (a + nodeHeight / 2 + verticalSpacing)) / 2"
      using "1.prems"(2) by (simp add: Let_def)
    have lo: "a + 480 \<le> g" and hi: "g \<le> b - 480"
      using True unfolding g nodeHeight_def verticalSpacing_def by (simp_all add: field_simps)
    have "\<forall>y \<in> set ys. b \<le> y" using "1.prems"(1) by auto
    then show ?thesis using lo hi by fastforce
  next
    case False
    then have r: "findGap (b # ys) = Some g" using "1.prems"(2) by (simp add: Let_def)
    have s: "sorted (b # ys)" and ab: "a \<le> b" using "1.prems"(1) by auto
    have ih: "hd (b # ys) + 480 \<le> g \<and> (\<forall>y \<in> set (b # ys). y + 480 \<le> g \<or> g \<le> y - 480)"
      using "1.IH"[OF refl refl _ s r] False by simp
    then show ?thesis using ab by auto
  qed
qed simp_all

lemma Math_max_ge: "Math_max l = Some m \<Longrightarrow> y \<in> set l \<Longrightarrow> y \<le> m"
proof (cases l)
  case Nil
  then show "Math_max l = Some m \<Longrightarrow> y \<in> set l \<Longrightarrow> y \<le> m" by simp
next
  case (Cons v vs)
  assume "Math_max l = Some m" "y \<in> set l"
  then have "m = fold max vs v" and y: "y \<in> set (v # vs)" using Cons by simp_all
  then have "m = Max (set (v # vs))" by (simp only: Max.set_eq_fold)
  then show "y \<le> m" using y by (simp only: Max_ge[OF finite_set])
qed

text \<open>
  The position chosen for a new node is clear of every node of the target column, on each
  of the five paths of the search.
\<close>

lemma findBestY_clear: "conflictsAt ex (findBestY ex idealY) = []"
proof (cases "conflictsAt ex idealY")
  case Nil
  then show ?thesis by (simp add: findBestY_def)
next
  case (Cons conflict rest)
  let ?above = "node_y conflict - nodeHeight - verticalSpacing"
  let ?below = "node_y conflict + nodeHeight + verticalSpacing"
  let ?ys = "sort (map node_y ex)"
  show ?thesis
  proof (cases "conflictsAt ex ?above = []")
    case True
    then show ?thesis using Cons by (simp add: findBestY_def Let_def)
  next
    case above: False
    show ?thesis
    proof (cases "conflictsAt ex ?below = []")
      case True
      then show ?thesis using Cons above by (simp add: findBestY_def Let_def)
    next
      case below: False
      show ?thesis
      proof (cases "findGap ?ys")
        case (Some g)
        then have "\<forall>y \<in> set ?ys. y + 480 \<le> g \<or> g \<le> y - 480"
          using findGap_clear[of ?ys g] by simp
        then have "\<forall>e \<in> set ex. 220 \<le> \<bar>g - node_y e\<bar>" by fastforce
        then have "conflictsAt ex g = []" by (simp add: conflictsAt_empty_iff)
        then show ?thesis using Cons above below Some by (simp add: findBestY_def Let_def)
      next
        case None
        have "ex \<noteq> []" using Cons conflictsAt_column[of ex idealY] by simp
        moreover have "length ?ys = length ex" by simp
        ultimately have "?ys \<noteq> []" by (metis length_0_conv)
        then obtain m where m: "Math_max ?ys = Some m"
          by (cases ?ys) simp_all
        then have "\<forall>y \<in> set ?ys. y \<le> m" using Math_max_ge by blast
        then have "\<forall>e \<in> set ex. 220 \<le> \<bar>m + nodeHeight + verticalSpacing - node_y e\<bar>"
          by (fastforce simp: nodeHeight_def verticalSpacing_def)
        then have "conflictsAt ex (m + nodeHeight + verticalSpacing) = []"
          by (simp add: conflictsAt_empty_iff)
        then show ?thesis using Cons above below None m by (simp add: findBestY_def Let_def)
      qed
    qed
  qed
qed

subsection \<open>Arithmetic without rounding\<close>

lemma exactValue_isDouble: "exactValue v \<Longrightarrow> isDouble v"
proof -
  assume e: "exactValue v"
  then obtain k :: int where k: "v * 2048 = of_int k"
    by (auto simp: exactValue_def onGrid_def elim: Ints_cases)
  have "\<bar>v * 2048\<bar> \<le> 2 ^ 40 * 2048" using e by (simp add: exactValue_def abs_mult)
  then have "\<bar>(of_int k :: rat)\<bar> \<le> of_int (2 ^ 51)" by (simp add: k)
  then have "\<bar>k\<bar> \<le> 2 ^ 51" by (simp only: of_int_abs[symmetric] of_int_le_iff)
  then have b: "\<bar>k\<bar> < 2 ^ 53" by simp
  have "v = of_int k * 2 powi (- 11)"
    using k by (simp add: power_int_minus field_simps)
  then show ?thesis unfolding isDouble_def using b by (intro exI[of _ k] exI[of _ "- 11"]) simp
qed

lemma onGrid_numeral: "onGrid k (numeral c)"
  by (simp add: onGrid_def)

lemma onGrid_of_nat: "onGrid k (of_nat c)"
  by (simp add: onGrid_def)

lemma onGrid_1: "onGrid k 1"
  by (simp add: onGrid_def)

lemma onGrid_add: "onGrid k a \<Longrightarrow> onGrid k b \<Longrightarrow> onGrid k (a + b)"
  by (simp add: onGrid_def distrib_right)

lemma onGrid_diff: "onGrid k a \<Longrightarrow> onGrid k b \<Longrightarrow> onGrid k (a - b)"
  by (simp add: onGrid_def left_diff_distrib)

lemma onGrid_minus: "onGrid k a \<Longrightarrow> onGrid k (- a)"
  by (simp add: onGrid_def)

lemma onGrid_times: "onGrid k a \<Longrightarrow> onGrid k (a * numeral c)"
proof -
  assume "onGrid k a"
  then have "a * 2 ^ k \<in> \<int>" by (simp only: onGrid_def)
  then have "a * 2 ^ k * numeral c \<in> \<int>" by (rule Ints_mult) (rule Ints_numeral)
  moreover have "a * numeral c * 2 ^ k = a * 2 ^ k * numeral c" by (simp add: ac_simps)
  ultimately show ?thesis unfolding onGrid_def by (simp only:)
qed

lemma onGrid_finer: "onGrid 10 a \<Longrightarrow> onGrid 11 a"
proof -
  assume "onGrid 10 a"
  then have "a * 2 ^ 10 \<in> \<int>" by (simp only: onGrid_def)
  then have "a * 2 ^ 10 * 2 \<in> \<int>" by (rule Ints_mult) (rule Ints_numeral)
  moreover have "a * 2 ^ 11 = a * 2 ^ 10 * 2" by simp
  ultimately show ?thesis unfolding onGrid_def by (simp only:)
qed

lemma onGrid_half: "onGrid 10 a \<Longrightarrow> onGrid 11 (a / 2)"
proof -
  assume "onGrid 10 a"
  moreover have "a / 2 * 2 ^ 11 = a * 2 ^ 10" by simp
  ultimately show ?thesis unfolding onGrid_def by (simp only:)
qed

lemmas onGrid_intros =
  onGrid_add onGrid_diff onGrid_minus onGrid_times onGrid_half
  onGrid_numeral onGrid_of_nat onGrid_1

text \<open>A rounding function leaves exact values as they are.\<close>

lemma rounds_exact:
  assumes "roundsToDouble rd" and "list_all (onGrid 11) vs"
    and "list_all (\<lambda>v. \<bar>v\<bar> \<le> 2 ^ 40) vs"
  shows "list_all (\<lambda>v. rd v = v) vs"
  using assms exactValue_isDouble
  unfolding roundsToDouble_def exactValue_def list_all_iff by blast

text \<open>
  The conflict test, at a height that is a multiple of \<open>1/2048\<close> of magnitude at most
  \<open>2^39\<close>, against nodes at exact coordinates: the seven values it computes are exact.
\<close>

lemma conflictsAtR_exact:
  assumes R: "roundsToDouble rd"
    and ex: "\<forall>e \<in> set ex. exactCoord (node_y e)"
    and y: "onGrid 11 y" "\<bar>y\<bar> \<le> 2 ^ 39"
  shows "conflictsAtR rd ex y = conflictsAt ex y"
proof -
  have h: "(200::rat) / 2 = 100" by simp
  have "(let existingTop = rd (rd (node_y e - rd (nodeHeight / 2)) - 20);
             existingBottom = rd (rd (node_y e + rd (nodeHeight / 2)) + 20);
             newNodeTop = rd (y - rd (nodeHeight / 2));
             newNodeBottom = rd (y + rd (nodeHeight / 2))
         in newNodeTop < existingBottom \<and> newNodeBottom > existingTop) =
        (let existingTop = node_y e - nodeHeight / 2 - 20;
             existingBottom = node_y e + nodeHeight / 2 + 20;
             newNodeTop = y - nodeHeight / 2;
             newNodeBottom = y + nodeHeight / 2
         in newNodeTop < existingBottom \<and> newNodeBottom > existingTop)"
    if e: "e \<in> set ex" for e
  proof -
    let ?a = "node_y e"
    let ?ops = "[nodeHeight / 2, ?a - nodeHeight / 2, ?a - nodeHeight / 2 - 20,
                 ?a + nodeHeight / 2, ?a + nodeHeight / 2 + 20,
                 y - nodeHeight / 2, y + nodeHeight / 2]"
    have g: "onGrid 11 ?a" and b: "\<bar>?a\<bar> \<le> 2 ^ 30"
      using ex e by (simp_all add: exactCoord_def onGrid_finer)
    have grid: "list_all (onGrid 11) ?ops"
      unfolding list.pred_inject nodeHeight_def h
      by (intro conjI TrueI onGrid_intros g y) simp
    have bound: "list_all (\<lambda>v. \<bar>v\<bar> \<le> 2 ^ 40) ?ops"
      unfolding list.pred_inject nodeHeight_def h
      using b y(2) by (simp add: abs_le_iff)
    have "list_all (\<lambda>v. rd v = v) ?ops"
      using R grid bound by (rule rounds_exact)
    then show ?thesis
      by (simp only: list.pred_inject)
  qed
  then show ?thesis
    unfolding conflictsAtR_def conflictsAt_def by (intro filter_cong refl)
qed


text \<open>The gap search, on exact coordinates.\<close>

lemma findGapR_exact:
  assumes R: "roundsToDouble rd" and ys: "\<forall>y \<in> set ys. exactCoord y"
  shows "findGapR rd ys = findGap ys"
  using ys
proof (induction ys rule: findGap.induct)
  case (1 a b ys)
  have h: "(200::rat) / 2 = 100" by simp
  let ?s = "a + nodeHeight / 2 + verticalSpacing"
  let ?e = "b - nodeHeight / 2 - verticalSpacing"
  let ?ops = "[nodeHeight / 2, a + nodeHeight / 2, ?s, b - nodeHeight / 2, ?e,
               ?e - ?s, (?e - ?s) / 2, ?s + (?e - ?s) / 2]"
  have g10: "onGrid 10 a" "onGrid 10 b" and bd: "\<bar>a\<bar> \<le> 2 ^ 30" "\<bar>b\<bar> \<le> 2 ^ 30"
    using "1.prems" by (simp_all add: exactCoord_def)
  have g11: "onGrid 11 a" "onGrid 11 b"
    using g10 by (simp_all add: onGrid_finer)
  have grid: "list_all (onGrid 11) ?ops"
    unfolding list.pred_inject nodeHeight_def verticalSpacing_def h
    by (intro conjI TrueI onGrid_intros g10 g11) simp
  have bound: "list_all (\<lambda>v. \<bar>v\<bar> \<le> 2 ^ 40) ?ops"
    unfolding list.pred_inject nodeHeight_def verticalSpacing_def h
    using bd by (simp add: abs_le_iff diff_divide_distrib add_divide_distrib)
  have "list_all (\<lambda>v. rd v = v) ?ops"
    using R grid bound by (rule rounds_exact)
  then have eqs: "rd (nodeHeight / 2) = nodeHeight / 2"
    "rd (a + nodeHeight / 2) = a + nodeHeight / 2" "rd ?s = ?s"
    "rd (b - nodeHeight / 2) = b - nodeHeight / 2" "rd ?e = ?e"
    "rd (?e - ?s) = ?e - ?s" "rd ((?e - ?s) / 2) = (?e - ?s) / 2"
    "rd (?s + (?e - ?s) / 2) = ?s + (?e - ?s) / 2"
    by (simp_all only: list.pred_inject)
  have rest: "findGapR rd (b # ys) = findGap (b # ys)"
    if "\<not> nodeHeight \<le> ?e - ?s"
    using "1.IH"[OF refl refl that] "1.prems" by simp
  show ?case
    by (simp only: findGapR.simps findGap.simps Let_def eqs) (simp add: rest)
qed simp_all

text \<open>
  The sort of line 540: with a comparator that is at most 0 exactly on the pairs in order,
  the insertion sort of the model is the sort of the library.
\<close>

lemma insert_sorted_insort:
  assumes "\<forall>w \<in> set ws. (cmp v w \<le> 0) = (v \<le> w)"
  shows "insert_sorted cmp v ws = insort v ws"
  using assms by (induction ws) simp_all

lemma array_sort_sort:
  assumes "\<forall>v \<in> set vs. \<forall>w \<in> set vs. (cmp v w \<le> 0) = (v \<le> w)"
  shows "array_sort cmp vs = sort vs"
  using assms
proof (induction vs)
  case Nil
  show ?case by (simp add: array_sort_def)
next
  case (Cons v vs)
  then have ih: "array_sort cmp vs = sort vs" by simp
  have "array_sort cmp (v # vs) = insert_sorted cmp v (sort vs)"
    using ih by (simp add: array_sort_def)
  also have "\<dots> = insort v (sort vs)"
    using Cons.prems by (intro insert_sorted_insort) simp
  finally show ?case by simp
qed

lemma signOf_le_0: "(signOf v \<le> 0) = (v \<le> 0)"
  by (simp add: signOf_def)

lemma sortR_exact:
  assumes R: "roundsToDouble rd" and ys: "\<forall>y \<in> set ys. exactCoord y"
  shows "array_sort (\<lambda>a b. signOf (rd (a - b))) ys = sort ys"
proof (rule array_sort_sort, intro ballI)
  fix a b assume "a \<in> set ys" "b \<in> set ys"
  then have g: "onGrid 11 a" "onGrid 11 b" and bd: "\<bar>a\<bar> \<le> 2 ^ 30" "\<bar>b\<bar> \<le> 2 ^ 30"
    using ys by (simp_all add: exactCoord_def onGrid_finer)
  have "list_all (\<lambda>v. rd v = v) [a - b]"
    using R
  proof (rule rounds_exact)
    show "list_all (onGrid 11) [a - b]" using g by (simp add: onGrid_diff)
    show "list_all (\<lambda>v. \<bar>v\<bar> \<le> 2 ^ 40) [a - b]" using bd by (simp add: abs_le_iff)
  qed
  then show "(signOf (rd (a - b)) \<le> 0) = (a \<le> b)"
    by (simp add: signOf_le_0)
qed

text \<open>The two positions tried beside a conflict, and the position below the lowest node.\<close>

lemma Math_max_in: "Math_max ys = Some m \<Longrightarrow> m \<in> set ys"
proof (cases ys)
  case Nil
  assume "Math_max ys = Some m" then show ?thesis using Nil by simp
next
  case (Cons y zs)
  assume "Math_max ys = Some m"
  then have m: "m = fold max zs y" using Cons by simp
  have "fold max zs y \<in> set (y # zs)"
  proof (induction zs arbitrary: y)
    case Nil show ?case by simp
  next
    case (Cons z zs)
    have "fold max zs (max z y) \<in> insert (max z y) (set zs)"
      using Cons.IH[of "max z y"] by simp
    moreover have "max z y = y \<or> max z y = z" by (simp add: max_def)
    ultimately have "fold max zs (max z y) \<in> insert y (insert z (set zs))" by auto
    then show ?case by simp
  qed
  then show ?thesis using m Cons by simp
qed

lemma step_exact:
  assumes R: "roundsToDouble rd" and c: "exactCoord c"
  shows "rd (rd (c - nodeHeight) - verticalSpacing) = c - nodeHeight - verticalSpacing"
    and "rd (rd (c + nodeHeight) + verticalSpacing) = c + nodeHeight + verticalSpacing"
    and "onGrid 11 (c - nodeHeight - verticalSpacing)"
    and "\<bar>c - nodeHeight - verticalSpacing\<bar> \<le> 2 ^ 39"
    and "onGrid 11 (c + nodeHeight + verticalSpacing)"
    and "\<bar>c + nodeHeight + verticalSpacing\<bar> \<le> 2 ^ 39"
proof -
  let ?ops = "[c - nodeHeight, c - nodeHeight - verticalSpacing,
               c + nodeHeight, c + nodeHeight + verticalSpacing]"
  have g: "onGrid 11 c" and bd: "\<bar>c\<bar> \<le> 2 ^ 30"
    using c by (simp_all add: exactCoord_def onGrid_finer)
  have grid: "list_all (onGrid 11) ?ops"
    unfolding list.pred_inject nodeHeight_def verticalSpacing_def
    by (intro conjI TrueI onGrid_intros g) simp
  have bound: "list_all (\<lambda>v. \<bar>v\<bar> \<le> 2 ^ 39) ?ops"
    unfolding list.pred_inject nodeHeight_def verticalSpacing_def
    using bd by (simp add: abs_le_iff)
  then have "list_all (\<lambda>v. \<bar>v\<bar> \<le> 2 ^ 40) ?ops"
    unfolding list_all_iff by fastforce
  with R grid have "list_all (\<lambda>v. rd v = v) ?ops"
    by (rule rounds_exact)
  then have eqs: "rd (c - nodeHeight) = c - nodeHeight"
    "rd (c - nodeHeight - verticalSpacing) = c - nodeHeight - verticalSpacing"
    "rd (c + nodeHeight) = c + nodeHeight"
    "rd (c + nodeHeight + verticalSpacing) = c + nodeHeight + verticalSpacing"
    by (simp_all only: list.pred_inject)
  show "rd (rd (c - nodeHeight) - verticalSpacing) = c - nodeHeight - verticalSpacing"
    "rd (rd (c + nodeHeight) + verticalSpacing) = c + nodeHeight + verticalSpacing"
    by (simp_all only: eqs)
  show "onGrid 11 (c - nodeHeight - verticalSpacing)"
    "onGrid 11 (c + nodeHeight + verticalSpacing)"
    using grid by (simp_all only: list.pred_inject)
  show "\<bar>c - nodeHeight - verticalSpacing\<bar> \<le> 2 ^ 39"
    "\<bar>c + nodeHeight + verticalSpacing\<bar> \<le> 2 ^ 39"
    using bound by (simp_all only: list.pred_inject)
qed

text \<open>The search for a free height.\<close>

lemma findBestYR_exact:
  assumes R: "roundsToDouble rd"
    and ex: "\<forall>e \<in> set ex. exactCoord (node_y e)"
    and y: "onGrid 11 y" "\<bar>y\<bar> \<le> 2 ^ 39"
  shows "findBestYR rd ex y = findBestY ex y"
proof (cases "conflictsAt ex y")
  case Nil
  then show ?thesis
    by (simp add: findBestYR_def findBestY_def conflictsAtR_exact[OF R ex y])
next
  case (Cons conflict cs)
  then have "conflict \<in> set (conflictsAt ex y)" by simp
  then have "conflict \<in> set ex" by (simp add: conflictsAt_def)
  then have c: "exactCoord (node_y conflict)" using ex by blast
  note s = step_exact[OF R c]
  have ys: "\<forall>v \<in> set (map node_y ex). exactCoord v" using ex by simp
  then have sorted: "\<forall>v \<in> set (sort (map node_y ex)). exactCoord v" by simp
  have last: "rd (rd (m + nodeHeight) + verticalSpacing) = m + nodeHeight + verticalSpacing"
    if "Math_max (sort (map node_y ex)) = Some m" for m
    using step_exact(2)[OF R] sorted Math_max_in[OF that] by blast
  show ?thesis
    unfolding findBestYR_def findBestY_def
    by (simp only: conflictsAtR_exact[OF R ex y] Cons list.case Let_def s(1,2)
          conflictsAtR_exact[OF R ex s(3,4)] conflictsAtR_exact[OF R ex s(5,6)]
          sortR_exact[OF R ys] findGapR_exact[OF R sorted])
       (simp add: last split: option.splits)
qed

text \<open>The target column and the nodes in its band (lines 477-483).\<close>

lemma column_exact:
  assumes R: "roundsToDouble rd" and d: "exactCanvas d" and f: "exactCoord fx"
  shows "existingNodesAtTargetXR rd d
           (fx + (if dir = Left then - horizontalSpacing else horizontalSpacing)) =
         existingNodesAtTargetX d
           (fx + (if dir = Left then - horizontalSpacing else horizontalSpacing))"
    and "rd (fx + (if dir = Left then - horizontalSpacing else horizontalSpacing)) =
         fx + (if dir = Left then - horizontalSpacing else horizontalSpacing)"
proof -
  let ?t = "fx + (if dir = Left then - horizontalSpacing else horizontalSpacing)"
  have g: "onGrid 11 fx" and bd: "\<bar>fx\<bar> \<le> 2 ^ 30"
    using f by (simp_all add: exactCoord_def onGrid_finer)
  have gt: "onGrid 11 ?t"
    unfolding horizontalSpacing_def by (cases "dir = Left") (simp_all add: onGrid_intros g)
  have bt: "\<bar>?t\<bar> \<le> 2 ^ 31"
    unfolding horizontalSpacing_def using bd by (simp add: abs_le_iff)
  have "list_all (\<lambda>v. rd v = v) [?t, nodeWidth + 100]"
    using R
  proof (rule rounds_exact)
    show "list_all (onGrid 11) [?t, nodeWidth + 100]"
      using gt by (simp add: nodeWidth_def onGrid_numeral)
    show "list_all (\<lambda>v. \<bar>v\<bar> \<le> 2 ^ 40) [?t, nodeWidth + 100]"
      using bt by (simp add: nodeWidth_def)
  qed
  then have eqs: "rd ?t = ?t" "rd (nodeWidth + 100) = nodeWidth + 100"
    by (simp_all only: list.pred_inject)
  show "rd ?t = ?t" by (rule eqs)
  have "rd (node_x n - ?t) = node_x n - ?t" if n: "n \<in> set (nodes d)" for n
  proof -
    have gn: "onGrid 11 (node_x n)" and bn: "\<bar>node_x n\<bar> \<le> 2 ^ 30"
      using d n by (simp_all add: exactCanvas_def exactCoord_def onGrid_finer)
    have "list_all (\<lambda>v. rd v = v) [node_x n - ?t]"
      using R
    proof (rule rounds_exact)
      show "list_all (onGrid 11) [node_x n - ?t]"
        using gn gt by (simp add: onGrid_diff)
      show "list_all (\<lambda>v. \<bar>v\<bar> \<le> 2 ^ 40) [node_x n - ?t]"
        using bn bt by (simp add: abs_le_iff)
    qed
    then show ?thesis by simp
  qed
  then show "existingNodesAtTargetXR rd d ?t = existingNodesAtTargetX d ?t"
    unfolding existingNodesAtTargetXR_def existingNodesAtTargetX_def eqs(2)
    by (intro filter_cong refl) simp
qed

text \<open>The ideal height of the \<open>i\<close>-th of \<open>cnt\<close> new nodes (lines 491 and 495).\<close>

lemma ideal_exact:
  assumes R: "roundsToDouble rd" and f: "exactCoord fy" and n: "cnt \<le> 2 ^ 20" "i < cnt"
  shows "rd (rd (fy - rd (rd (rd (of_nat cnt - 1) * verticalSpacing) / 2)) +
             rd (of_nat i * verticalSpacing)) =
         fy - ((of_nat cnt - 1) * verticalSpacing) / 2 + of_nat i * verticalSpacing"
    and "onGrid 11 (fy - ((of_nat cnt - 1) * verticalSpacing) / 2 + of_nat i * verticalSpacing)"
    and "\<bar>fy - ((of_nat cnt - 1) * verticalSpacing) / 2 + of_nat i * verticalSpacing\<bar> \<le> 2 ^ 39"
proof -
  let ?c = "of_nat cnt :: rat"
  let ?i = "of_nat i :: rat"
  let ?ops = "[?c - 1, (?c - 1) * verticalSpacing, ((?c - 1) * verticalSpacing) / 2,
               fy - ((?c - 1) * verticalSpacing) / 2, ?i * verticalSpacing,
               fy - ((?c - 1) * verticalSpacing) / 2 + ?i * verticalSpacing]"
  have "i \<le> 2 ^ 20" using n by linarith
  then have "?i \<le> of_nat (2 ^ 20)" by (simp only: of_nat_le_iff)
  moreover have "?c \<le> of_nat (2 ^ 20)" using n(1) by (simp only: of_nat_le_iff)
  ultimately have nb: "?c \<le> 2 ^ 20" "?i \<le> 2 ^ 20" by simp_all
  have p: "0 \<le> ?c" "0 \<le> ?i" by simp_all
  have g10: "onGrid 10 fy" and g11: "onGrid 11 fy" and bd: "\<bar>fy\<bar> \<le> 2 ^ 30"
    using f by (simp_all add: exactCoord_def onGrid_finer)
  have pw: "(2::rat) ^ 20 = 1048576" "(2::rat) ^ 30 = 1073741824" by simp_all
  have grid: "list_all (onGrid 11) ?ops"
    unfolding list.pred_inject verticalSpacing_def
    by (intro conjI TrueI onGrid_intros g10 g11) simp
  have bound: "list_all (\<lambda>v. \<bar>v\<bar> \<le> 2 ^ 39) ?ops"
    unfolding list.pred_inject verticalSpacing_def
    apply (simp add: abs_le_iff diff_divide_distrib add_divide_distrib)
    apply (insert bd nb p pw)
    apply (intro conjI; linarith)
    done
  then have "list_all (\<lambda>v. \<bar>v\<bar> \<le> 2 ^ 40) ?ops"
    unfolding list_all_iff by fastforce
  with R grid have "list_all (\<lambda>v. rd v = v) ?ops"
    by (rule rounds_exact)
  then have eqs: "rd (?c - 1) = ?c - 1"
    "rd ((?c - 1) * verticalSpacing) = (?c - 1) * verticalSpacing"
    "rd (((?c - 1) * verticalSpacing) / 2) = ((?c - 1) * verticalSpacing) / 2"
    "rd (fy - ((?c - 1) * verticalSpacing) / 2) = fy - ((?c - 1) * verticalSpacing) / 2"
    "rd (?i * verticalSpacing) = ?i * verticalSpacing"
    "rd (fy - ((?c - 1) * verticalSpacing) / 2 + ?i * verticalSpacing) =
       fy - ((?c - 1) * verticalSpacing) / 2 + ?i * verticalSpacing"
    by (simp_all only: list.pred_inject)
  show "rd (rd (fy - rd (rd (rd (?c - 1) * verticalSpacing) / 2)) + rd (?i * verticalSpacing)) =
         fy - ((?c - 1) * verticalSpacing) / 2 + ?i * verticalSpacing"
    by (simp only: eqs)
  show "onGrid 11 (fy - ((?c - 1) * verticalSpacing) / 2 + ?i * verticalSpacing)"
    using grid by (simp only: list.pred_inject)
  show "\<bar>fy - ((?c - 1) * verticalSpacing) / 2 + ?i * verticalSpacing\<bar> \<le> 2 ^ 39"
    using bound by (simp only: list.pred_inject)
qed

text \<open>
  On a canvas of exact coordinates, for at most \<open>2^20\<close> new nodes, the double arithmetic
  of the code and the rational arithmetic of the model give the same position.
\<close>

lemma rounded_position_exact:
  assumes R: "roundsToDouble rd" and d: "exactCanvas d" and f: "fnode \<in> set (nodes d)"
    and n: "cnt \<le> 2 ^ 20" "i < cnt"
  shows "newNodePositionR rd d fnode dir cnt i = newNodePosition d fnode dir cnt i"
proof -
  have fx: "exactCoord (node_x fnode)" and fy: "exactCoord (node_y fnode)"
    using d f by (simp_all add: exactCanvas_def)
  have ex: "\<forall>e \<in> set (existingNodesAtTargetX d (targetX fnode dir)). exactCoord (node_y e)"
    using d by (simp add: exactCanvas_def existingNodesAtTargetX_def)
  note col = column_exact[OF R d fx, of dir, folded targetX_def]
  note idl = ideal_exact[OF R fy n]
  show ?thesis
    unfolding newNodePositionR_def newNodePosition_def targetXR_def Let_def
    by (simp only: col idl(1) targetX_def[symmetric] findBestYR_exact[OF R ex idl(2,3)])
qed

subsection \<open>Overlap after an expansion\<close>

lemma expand_AE_right:
  "expandCanvas vaultAB (freshId ''node-1-'') (freshId ''edge-1-'') ''t1'' (Some canvasAE)
     noteA Right = Some canvasAEB"
  by (simp add: expand_eval canvasAE_def canvasAEB_def nodeAlow_def nodeE_def nodeBlow_def
        edgeAB_def vaultAB_def notes_eval)

lemma expand_AT_right:
  "expandCanvas vaultAB (freshId ''node-1-'') (freshId ''edge-1-'') ''t1'' (Some canvasAT)
     noteA Right = Some canvasATB"
  by (simp add: expand_eval canvasAT_def canvasATB_def nodeT_def nodeB_def
        edgeAB_def vaultAB_def notes_eval)

lemma exactCoord_numeral: "numeral c \<le> (2::rat) ^ 30 \<Longrightarrow> exactCoord (numeral c)"
  by (simp add: exactCoord_def onGrid_numeral)

lemma exactCoord_0: "exactCoord 0"
  by (simp add: exactCoord_def onGrid_def)

lemma exactCanvas_examples:
  "exactCanvas canvasA" "exactCanvas canvasAB" "exactCanvas canvasAE" "exactCanvas canvasAT"
  by (simp_all add: exactCanvas_def canvasA_def canvasAB_def canvasAE_def canvasAT_def
        centerNode_def DEFAULT_SETTINGS_def nodeB_def nodeAlow_def nodeE_def nodeT_def
        exactCoord_numeral exactCoord_0)

lemma focus_canvasAE: "findFocusNode canvasAE noteA = Some nodeAlow"
  by (simp add: findFocusNode_def canvasAE_def nodeAlow_def notes_eval)

lemma clearNodes_snoc:
  "clearNodes (ns @ [n]) = (clearNodes ns \<and> (\<forall>m \<in> set ns. apart m n))"
  by (induction ns) auto

lemma findFocusNode_in: "findFocusNode d focus = Some fnode \<Longrightarrow> fnode \<in> set (nodes d)"
  by (auto simp: findFocusNode_def find_Some_iff)

text \<open>
  Claim C4, as stated, fails, in three ways. Each canvas below has coordinates on which
  the code computes without rounding, and has no overlap before the call.
  \<^item> The nodes of one call are placed against the nodes that the canvas had when the
    call started, never against each other. The canvas of A alone gets B one spacing to
    the right of A; then A has the further links C and D, and expanding A to the right
    finds both ideal positions in conflict with B and moves both to the same free
    position above B.
  \<^item> The conflict test pads the old node only. With A at \<open>(0, 520)\<close> and E at
    \<open>(450, 300)\<close>, B is added at \<open>(450, 520)\<close>, 220 below E: no conflict for the code, but
    the two boxes, each padded by 20, meet.
  \<^item> The conflict test takes every old node to be \<open>nodeHeight\<close> high. With a node T of
    height 1000 at \<open>(850, 700)\<close>, B is added at \<open>(850, 300)\<close>, inside the box of T.
\<close>

theorem expand_overlap_counterexample:
  "exactCanvas canvasA \<and> exactCanvas canvasAB \<and> exactCanvas canvasAE \<and> exactCanvas canvasAT \<and>
   overlapFree (nodes canvasA) \<and>
   expandCanvas vaultAB (freshId ''node-1-'') (freshId ''edge-1-'') ''t1'' (Some canvasA)
     noteA Right = Some canvasAB \<and>
   overlapFree (nodes canvasAB) \<and>
   expandCanvas vaultABCD (freshId ''node-2-'') (freshId ''edge-2-'') ''t2'' (Some canvasAB)
     noteA Right = Some canvasABCD \<and>
   node_x nodeC = node_x nodeD \<and> node_y nodeC = node_y nodeD \<and> paddedOverlap nodeC nodeD \<and>
   \<not> overlapFree (nodes canvasABCD) \<and>
   overlapFree (nodes canvasAE) \<and>
   expandCanvas vaultAB (freshId ''node-1-'') (freshId ''edge-1-'') ''t1'' (Some canvasAE)
     noteA Right = Some canvasAEB \<and>
   conflictsAt [nodeE] (node_y nodeBlow) = [] \<and> paddedOverlap nodeBlow nodeE \<and>
   \<not> overlapFree (nodes canvasAEB) \<and>
   overlapFree (nodes canvasAT) \<and>
   expandCanvas vaultAB (freshId ''node-1-'') (freshId ''edge-1-'') ''t1'' (Some canvasAT)
     noteA Right = Some canvasATB \<and>
   conflictsAt [nodeT] (node_y nodeB) = [] \<and> paddedOverlap nodeB nodeT \<and>
   \<not> overlapFree (nodes canvasATB)"
proof -
  have start: "overlapFree (nodes canvasA)"
    by (simp add: canvasA_def)
  have before: "overlapFree (nodes canvasAB)"
    by (simp add: canvasAB_def paddedOverlap_def nodeB_def centerNode_def DEFAULT_SETTINGS_def
          nodeWidth_def)
  have same: "node_x nodeC = node_x nodeD \<and> node_y nodeC = node_y nodeD"
    by (simp add: nodeC_def nodeD_def)
  have meet: "paddedOverlap nodeC nodeD"
    by (simp add: paddedOverlap_def nodeC_def nodeD_def nodeWidth_def)
  then have after: "\<not> overlapFree (nodes canvasABCD)"
    by (simp add: canvasABCD_def)
  have first: "overlapFree (nodes canvasA) \<and>
     expandCanvas vaultAB (freshId ''node-1-'') (freshId ''edge-1-'') ''t1'' (Some canvasA)
       noteA Right = Some canvasAB \<and>
     overlapFree (nodes canvasAB) \<and>
     expandCanvas vaultABCD (freshId ''node-2-'') (freshId ''edge-2-'') ''t2'' (Some canvasAB)
       noteA Right = Some canvasABCD \<and>
     node_x nodeC = node_x nodeD \<and> node_y nodeC = node_y nodeD \<and> paddedOverlap nodeC nodeD \<and>
     \<not> overlapFree (nodes canvasABCD)"
    using start expand_A_right before expand_AB_right same meet after by blast
  have beforeE: "overlapFree (nodes canvasAE)"
    by (simp add: canvasAE_def paddedOverlap_def nodeAlow_def nodeE_def nodeWidth_def)
  have clearE: "conflictsAt [nodeE] (node_y nodeBlow) = []"
    by (simp add: conflictsAt_def nodeE_def nodeBlow_def nodeHeight_def Let_def)
  have meetE: "paddedOverlap nodeBlow nodeE"
    by (simp add: paddedOverlap_def nodeBlow_def nodeE_def nodeWidth_def)
  have afterE: "\<not> overlapFree (nodes canvasAEB)"
    using meetE by (simp add: canvasAEB_def paddedOverlap_def nodeBlow_def nodeE_def
          nodeAlow_def nodeWidth_def)
  have second: "overlapFree (nodes canvasAE) \<and>
     expandCanvas vaultAB (freshId ''node-1-'') (freshId ''edge-1-'') ''t1'' (Some canvasAE)
       noteA Right = Some canvasAEB \<and>
     conflictsAt [nodeE] (node_y nodeBlow) = [] \<and> paddedOverlap nodeBlow nodeE \<and>
     \<not> overlapFree (nodes canvasAEB)"
    using beforeE expand_AE_right clearE meetE afterE by blast
  have beforeT: "overlapFree (nodes canvasAT)"
    by (simp add: canvasAT_def paddedOverlap_def nodeT_def centerNode_def DEFAULT_SETTINGS_def
          nodeWidth_def)
  have clearT: "conflictsAt [nodeT] (node_y nodeB) = []"
    by (simp add: conflictsAt_def nodeT_def nodeB_def nodeHeight_def Let_def)
  have meetT: "paddedOverlap nodeB nodeT"
    by (simp add: paddedOverlap_def nodeB_def nodeT_def nodeWidth_def)
  have afterT: "\<not> overlapFree (nodes canvasATB)"
    using meetT by (simp add: canvasATB_def paddedOverlap_def nodeB_def nodeT_def
          centerNode_def DEFAULT_SETTINGS_def nodeWidth_def)
  have third: "overlapFree (nodes canvasAT) \<and>
     expandCanvas vaultAB (freshId ''node-1-'') (freshId ''edge-1-'') ''t1'' (Some canvasAT)
       noteA Right = Some canvasATB \<and>
     conflictsAt [nodeT] (node_y nodeB) = [] \<and> paddedOverlap nodeB nodeT \<and>
     \<not> overlapFree (nodes canvasATB)"
    using beforeT expand_AT_right clearT meetT afterT by blast
  show ?thesis using exactCanvas_examples first second third by blast
qed

text \<open>
  Claim C4, amended. Let the coordinates of the canvas be exact coordinates (multiples of
  \<open>1/1024\<close> of magnitude at most \<open>2^30\<close>) and the call add at most \<open>2^20\<close> nodes. Then the
  call keeps the nodes of the canvas and appends the new ones, and every new node
  \<^item> is at the position that the double arithmetic of the code computes for it, whatever
    the rounding of values that are not doubles;
  \<^item> is in the target column, one horizontal spacing beside the focus node, and has the
    height \<open>nodeHeight\<close>;
  \<^item> is at least \<open>nodeHeight + 20\<close> away, in y, from every node that the canvas had when
    the call started and whose x is less than \<open>nodeWidth + 100\<close> from the new node's: the
    box of the new node does not meet the box, with 20 units added above and below, of
    any such old node that is not higher than \<open>nodeHeight\<close>.

  So a call that adds a single node to a canvas whose nodes are pairwise apart leaves
  them pairwise apart. Nothing is said about two nodes added in the same call, about
  overlap that only the padding of the new node makes (a distance from 220 to 240), or
  about old nodes higher than \<open>nodeHeight\<close>.
\<close>

theorem expand_clear_of_existing:
  assumes "exactCanvas d" and "length (nodesToAdd app d focus dir) \<le> 2 ^ 20"
    and "expandCanvas app fn fe now (Some d) focus dir = Some d'"
  shows "take (length (nodes d)) (nodes d') = nodes d \<and>
     (\<forall>n \<in> set (drop (length (nodes d)) (nodes d')).
        \<exists>fnode i. findFocusNode d focus = Some fnode \<and>
          i < length (nodesToAdd app d focus dir) \<and>
          (\<forall>rd. roundsToDouble rd \<longrightarrow>
             newNodePositionR rd d fnode dir (length (nodesToAdd app d focus dir)) i =
               (node_x n, node_y n)) \<and>
          node_x n = targetX fnode dir \<and> node_height n = nodeHeight \<and>
          (\<forall>e \<in> set (nodes d). \<bar>node_x e - node_x n\<bar> < nodeWidth + 100 \<longrightarrow>
             nodeHeight + 20 \<le> \<bar>node_y n - node_y e\<bar> \<and>
             (node_height e \<le> nodeHeight \<longrightarrow> \<not> boxMeetsPadded n e))) \<and>
     (length (nodesToAdd app d focus dir) \<le> 1 \<and> clearNodes (nodes d) \<longrightarrow>
        clearNodes (nodes d'))"
proof (cases "nodesToAdd app d focus dir = [] \<or> findFocusNode d focus = None")
  case True
  then have "d' = d"
    using assms(3) by (auto simp: expandCanvas_nothing expandCanvas_no_focus)
  then show ?thesis by simp
next
  case False
  let ?toAdd = "nodesToAdd app d focus dir"
  from False obtain fnode where f: "findFocusNode d focus = Some fnode" by auto
  then have "d' = expanded app fn fe now d focus dir fnode"
    using False assms(3) by (simp add: expandCanvas_adds)
  then have all: "nodes d' = nodes d @ newNodes fn d fnode dir ?toAdd"
    by (simp add: expanded_def)
  then have kept: "take (length (nodes d)) (nodes d') = nodes d"
    and added: "drop (length (nodes d)) (nodes d') = newNodes fn d fnode dir ?toAdd"
    by simp_all
  have fmem: "fnode \<in> set (nodes d)"
    using f by (rule findFocusNode_in)
  define ex where "ex = existingNodesAtTargetX d (targetX fnode dir)"
  have new: "\<exists>i. i < length ?toAdd \<and>
       (\<forall>rd. roundsToDouble rd \<longrightarrow>
          newNodePositionR rd d fnode dir (length ?toAdd) i = (node_x n, node_y n)) \<and>
       node_x n = targetX fnode dir \<and> node_height n = nodeHeight \<and>
       (\<forall>e \<in> set (nodes d). \<bar>node_x e - node_x n\<bar> < nodeWidth + 100 \<longrightarrow>
          nodeHeight + 20 \<le> \<bar>node_y n - node_y e\<bar> \<and>
          (node_height e \<le> nodeHeight \<longrightarrow> \<not> boxMeetsPadded n e))"
    if "n \<in> set (newNodes fn d fnode dir ?toAdd)" for n
  proof -
    from that obtain i where i: "i < length ?toAdd"
      and n: "n = newNode fn (?toAdd ! i) (newNodePosition d fnode dir (length ?toAdd) i) i"
      unfolding newNodes_def by auto
    have pos: "newNodePosition d fnode dir (length ?toAdd) i = (node_x n, node_y n)"
      by (simp add: n newNode_def)
    have rounded: "newNodePositionR rd d fnode dir (length ?toAdd) i = (node_x n, node_y n)"
      if "roundsToDouble rd" for rd
      using rounded_position_exact[OF that assms(1) fmem assms(2) i] pos by simp
    have x: "node_x n = targetX fnode dir"
      by (simp add: n newNode_def newNodePosition_def Let_def)
    have h: "node_height n = nodeHeight"
      by (simp add: n newNode_def)
    have "conflictsAt ex (node_y n) = []"
      by (simp add: n newNode_def newNodePosition_def Let_def ex_def findBestY_clear)
    then have far: "\<forall>e \<in> set ex. 220 \<le> \<bar>node_y n - node_y e\<bar>"
      by (simp add: conflictsAt_empty_iff)
    have "nodeHeight + 20 \<le> \<bar>node_y n - node_y e\<bar> \<and>
          (node_height e \<le> nodeHeight \<longrightarrow> \<not> boxMeetsPadded n e)"
      if e: "e \<in> set (nodes d)" and band: "\<bar>node_x e - node_x n\<bar> < nodeWidth + 100" for e
    proof -
      have "e \<in> set ex" using e band by (simp add: ex_def existingNodesAtTargetX_def x)
      then have "220 \<le> \<bar>node_y n - node_y e\<bar>" using far by blast
      then show ?thesis by (auto simp: boxMeetsPadded_def h nodeHeight_def)
    qed
    then show ?thesis using i rounded x h by blast
  qed
  have single: "clearNodes (nodes d')"
    if one: "length ?toAdd \<le> 1" and clear: "clearNodes (nodes d)"
  proof -
    define ns where "ns = newNodes fn d fnode dir ?toAdd"
    have "length ns = 1"
      using one False by (cases ?toAdd) (simp_all add: ns_def)
    then have "\<exists>n. ns = [n]"
      by (cases ns) simp_all
    then obtain n where n: "newNodes fn d fnode dir ?toAdd = [n]"
      unfolding ns_def by blast
    then have "n \<in> set (newNodes fn d fnode dir ?toAdd)" by simp
    then have "\<forall>e \<in> set (nodes d). \<bar>node_x e - node_x n\<bar> < nodeWidth + 100 \<longrightarrow>
          nodeHeight + 20 \<le> \<bar>node_y n - node_y e\<bar>"
      using new by blast
    then have "\<forall>e \<in> set (nodes d). apart e n"
      by (simp add: apart_def abs_minus_commute)
    then show ?thesis using clear by (simp add: all n clearNodes_snoc)
  qed
  show ?thesis
    unfolding added using kept f new single by blast
qed

text \<open>
  Two calls. In the expansion of the canvas of A and B by C and D, C is moved from its
  ideal height 160, where it would meet B, to the height \<open>-180\<close>, which is 480 from the
  height of B, the one old node of the column. In the expansion of the canvas of A and E
  by B, the single new node stays at its ideal height, 220 from E, and the nodes remain
  pairwise apart; its position is the one that the search in double arithmetic gives,
  here with the identity for the rounding.
\<close>

theorem expand_clear_of_existing_witness:
  "roundsToDouble id \<and>
   exactCanvas canvasAB \<and>
   length (nodesToAdd vaultABCD canvasAB noteA Right) = 2 \<and>
   expandCanvas vaultABCD (freshId ''node-2-'') (freshId ''edge-2-'') ''t2'' (Some canvasAB)
     noteA Right = Some canvasABCD \<and>
   take (length (nodes canvasAB)) (nodes canvasABCD) = nodes canvasAB \<and>
   nodeC \<in> set (drop (length (nodes canvasAB)) (nodes canvasABCD)) \<and>
   node_x nodeC = targetX (centerNode DEFAULT_SETTINGS noteA) Right \<and>
   nodeB \<in> set (nodes canvasAB) \<and>
   \<bar>node_x nodeB - node_x nodeC\<bar> < nodeWidth + 100 \<and>
   node_height nodeB = nodeHeight \<and>
   conflictsAt [nodeB] 160 = [nodeB] \<and>
   nodeHeight + 20 \<le> \<bar>node_y nodeC - node_y nodeB\<bar> \<and>
   \<bar>node_y nodeC - node_y nodeB\<bar> = 480 \<and>
   \<not> boxMeetsPadded nodeC nodeB \<and>
   exactCanvas canvasAE \<and>
   length (nodesToAdd vaultAB canvasAE noteA Right) = 1 \<and>
   expandCanvas vaultAB (freshId ''node-1-'') (freshId ''edge-1-'') ''t1'' (Some canvasAE)
     noteA Right = Some canvasAEB \<and>
   nodeBlow \<in> set (drop (length (nodes canvasAE)) (nodes canvasAEB)) \<and>
   newNodePositionR id canvasAE nodeAlow Right 1 0 = (node_x nodeBlow, node_y nodeBlow) \<and>
   nodeE \<in> set (nodes canvasAE) \<and>
   \<bar>node_x nodeE - node_x nodeBlow\<bar> < nodeWidth + 100 \<and>
   node_height nodeE = nodeHeight \<and>
   \<bar>node_y nodeBlow - node_y nodeE\<bar> = 220 \<and>
   \<not> boxMeetsPadded nodeBlow nodeE \<and>
   clearNodes (nodes canvasAE) \<and> clearNodes (nodes canvasAEB)"
proof -
  have r: "roundsToDouble id"
    by (simp add: roundsToDouble_def)
  have l: "length (nodesToAdd vaultABCD canvasAB noteA Right) = 2"
    by (simp add: nodesToAdd_def newConnections_def getForwardLinks_def markdownFile_def
          getAbstractFileByPath_def vaultABCD_def canvasAB_def nodeB_def centerNode_def
          notes_eval Let_def)
  then have l': "length (nodesToAdd vaultABCD canvasAB noteA Right) \<le> 2 ^ 20" by simp
  have c: "nodeC \<in> set (drop (length (nodes canvasAB)) (nodes canvasABCD))"
    by (simp add: canvasAB_def canvasABCD_def)
  have b: "nodeB \<in> set (nodes canvasAB)"
    by (simp add: canvasAB_def)
  have band: "\<bar>node_x nodeB - node_x nodeC\<bar> < nodeWidth + 100"
    by (simp add: nodeB_def nodeC_def nodeWidth_def)
  have hb: "node_height nodeB = nodeHeight" "node_height nodeB \<le> nodeHeight"
    by (simp_all add: nodeB_def nodeHeight_def)
  have i: "conflictsAt [nodeB] 160 = [nodeB]"
    by (simp add: conflictsAt_def nodeB_def nodeHeight_def Let_def)
  have dist: "\<bar>node_y nodeC - node_y nodeB\<bar> = 480"
    by (simp add: nodeB_def nodeC_def)
  note t = expand_clear_of_existing[OF exactCanvas_examples(2) l' expand_AB_right]
  have kept: "take (length (nodes canvasAB)) (nodes canvasABCD) = nodes canvasAB"
    using t by blast
  obtain fnode where f: "findFocusNode canvasAB noteA = Some fnode"
    and x: "node_x nodeC = targetX fnode Right"
    and y: "\<forall>e \<in> set (nodes canvasAB). \<bar>node_x e - node_x nodeC\<bar> < nodeWidth + 100 \<longrightarrow>
          nodeHeight + 20 \<le> \<bar>node_y nodeC - node_y e\<bar> \<and>
          (node_height e \<le> nodeHeight \<longrightarrow> \<not> boxMeetsPadded nodeC e)"
    using t c by blast
  have fn: "fnode = centerNode DEFAULT_SETTINGS noteA" using f focus_canvasAB by simp
  have far: "nodeHeight + 20 \<le> \<bar>node_y nodeC - node_y nodeB\<bar> \<and> \<not> boxMeetsPadded nodeC nodeB"
    using y b band hb by blast
  have first: "exactCanvas canvasAB \<and>
     length (nodesToAdd vaultABCD canvasAB noteA Right) = 2 \<and>
     expandCanvas vaultABCD (freshId ''node-2-'') (freshId ''edge-2-'') ''t2'' (Some canvasAB)
       noteA Right = Some canvasABCD \<and>
     take (length (nodes canvasAB)) (nodes canvasABCD) = nodes canvasAB \<and>
     nodeC \<in> set (drop (length (nodes canvasAB)) (nodes canvasABCD)) \<and>
     node_x nodeC = targetX (centerNode DEFAULT_SETTINGS noteA) Right \<and>
     nodeB \<in> set (nodes canvasAB) \<and>
     \<bar>node_x nodeB - node_x nodeC\<bar> < nodeWidth + 100 \<and>
     node_height nodeB = nodeHeight \<and>
     conflictsAt [nodeB] 160 = [nodeB] \<and>
     nodeHeight + 20 \<le> \<bar>node_y nodeC - node_y nodeB\<bar> \<and>
     \<bar>node_y nodeC - node_y nodeB\<bar> = 480 \<and>
     \<not> boxMeetsPadded nodeC nodeB"
    using exactCanvas_examples(2) l expand_AB_right kept c x fn b band hb(1) i dist far by blast
  have m: "length (nodesToAdd vaultAB canvasAE noteA Right) = 1"
    by (simp add: nodesToAdd_def newConnections_def getForwardLinks_def markdownFile_def
          getAbstractFileByPath_def vaultAB_def canvasAE_def nodeAlow_def nodeE_def
          notes_eval Let_def)
  then have m': "length (nodesToAdd vaultAB canvasAE noteA Right) \<le> 2 ^ 20"
    and m1: "length (nodesToAdd vaultAB canvasAE noteA Right) \<le> 1" by simp_all
  have cE: "nodeBlow \<in> set (drop (length (nodes canvasAE)) (nodes canvasAEB))"
    by (simp add: canvasAE_def canvasAEB_def)
  have bE: "nodeE \<in> set (nodes canvasAE)"
    by (simp add: canvasAE_def)
  have bandE: "\<bar>node_x nodeE - node_x nodeBlow\<bar> < nodeWidth + 100"
    by (simp add: nodeE_def nodeBlow_def nodeWidth_def)
  have hE: "node_height nodeE = nodeHeight" "node_height nodeE \<le> nodeHeight"
    by (simp_all add: nodeE_def nodeHeight_def)
  have distE: "\<bar>node_y nodeBlow - node_y nodeE\<bar> = 220"
    by (simp add: nodeE_def nodeBlow_def)
  have clearE: "clearNodes (nodes canvasAE)"
    by (simp add: canvasAE_def apart_def nodeAlow_def nodeE_def nodeWidth_def)
  note u = expand_clear_of_existing[OF exactCanvas_examples(3) m' expand_AE_right]
  obtain gnode j where g: "findFocusNode canvasAE noteA = Some gnode"
    and j: "j < length (nodesToAdd vaultAB canvasAE noteA Right)"
    and pE: "\<forall>rd. roundsToDouble rd \<longrightarrow>
          newNodePositionR rd canvasAE gnode Right
            (length (nodesToAdd vaultAB canvasAE noteA Right)) j =
          (node_x nodeBlow, node_y nodeBlow)"
    and yE: "\<forall>e \<in> set (nodes canvasAE). \<bar>node_x e - node_x nodeBlow\<bar> < nodeWidth + 100 \<longrightarrow>
          nodeHeight + 20 \<le> \<bar>node_y nodeBlow - node_y e\<bar> \<and>
          (node_height e \<le> nodeHeight \<longrightarrow> \<not> boxMeetsPadded nodeBlow e)"
    using u cE by blast
  have "gnode = nodeAlow" "j = 0"
    using g focus_canvasAE j m by simp_all
  then have posE: "newNodePositionR id canvasAE nodeAlow Right 1 0 =
      (node_x nodeBlow, node_y nodeBlow)"
    using pE r m by simp
  have farE: "\<not> boxMeetsPadded nodeBlow nodeE"
    using yE bE bandE hE by blast
  have afterE: "clearNodes (nodes canvasAEB)"
    using u m1 clearE by blast
  have second: "exactCanvas canvasAE \<and>
     length (nodesToAdd vaultAB canvasAE noteA Right) = 1 \<and>
     expandCanvas vaultAB (freshId ''node-1-'') (freshId ''edge-1-'') ''t1'' (Some canvasAE)
       noteA Right = Some canvasAEB \<and>
     nodeBlow \<in> set (drop (length (nodes canvasAE)) (nodes canvasAEB)) \<and>
     newNodePositionR id canvasAE nodeAlow Right 1 0 = (node_x nodeBlow, node_y nodeBlow) \<and>
     nodeE \<in> set (nodes canvasAE) \<and>
     \<bar>node_x nodeE - node_x nodeBlow\<bar> < nodeWidth + 100 \<and>
     node_height nodeE = nodeHeight \<and>
     \<bar>node_y nodeBlow - node_y nodeE\<bar> = 220 \<and>
     \<not> boxMeetsPadded nodeBlow nodeE \<and>
     clearNodes (nodes canvasAE) \<and> clearNodes (nodes canvasAEB)"
    using exactCanvas_examples(3) m expand_AE_right cE posE bE bandE hE(1) distE farE clearE
      afterE
    by blast
  show ?thesis using r first second by blast
qed

end
